theory Spec2Isabelle
  imports Main "HOL-Library.AList" "HOL-Library.Sublist"
begin

section \<open>Values, documents and the Python operations the handlers use\<close>

text \<open>
  The handlers of \<^verbatim>\<open>main.py\<close> work on the documents of a document store: Python
  dictionaries from field names to values. A value is \<^verbatim>\<open>None\<close>, a boolean, an
  integer (unbounded, as Python's), a string or a store-assigned object identifier.
  A dictionary is an association list: \<open>AList.update\<close> replaces a key in place or
  appends it, as a Python \<^verbatim>\<open>dict\<close> keeps insertion order, and \<open>AList.delete\<close> is
  \<^verbatim>\<open>d.pop(k, None)\<close>. A string is a list of characters, read as code points
  below 256.
\<close>

datatype val = VNone | VBool bool | VInt int | VStr string | VOid nat

type_synonym doc = "(string \<times> val) list"

datatype exn =
    HTTPException nat string
  | StoreFailure
  | KeyError
  | TypeError
  | ValueError
  | ValidationError
  | NotImplementedError

text \<open>\<^verbatim>\<open>str.isspace\<close> on the code points below 256, and \<^verbatim>\<open>str.strip()\<close>.\<close>

definition is_space :: "char \<Rightarrow> bool" where
  "is_space c = (of_char c \<in> {9, 10, 11, 12, 13, 28, 29, 30, 31, 32, 133, 160 :: nat})"

definition strip :: "string \<Rightarrow> string" where
  "strip s = rev (dropWhile is_space (rev (dropWhile is_space s)))"

text \<open>\<^verbatim>\<open>d[k]\<close> raises \<^verbatim>\<open>KeyError\<close> on a missing key; \<^verbatim>\<open>d.get(k, default)\<close> does not.\<close>

definition getitem :: "doc \<Rightarrow> string \<Rightarrow> exn + val" where
  "getitem d k = (case map_of d k of None \<Rightarrow> Inl KeyError | Some v \<Rightarrow> Inr v)"

definition get_default :: "doc \<Rightarrow> string \<Rightarrow> val \<Rightarrow> val" where
  "get_default d k dflt = (case map_of d k of None \<Rightarrow> dflt | Some v \<Rightarrow> v)"

text \<open>
  \<^verbatim>\<open>int(x)\<close>: an integer is returned as it is, a boolean is 0 or 1, a string is
  parsed or raises \<^verbatim>\<open>ValueError\<close>; \<^verbatim>\<open>None\<close> and an object identifier raise
  \<^verbatim>\<open>TypeError\<close>. The parser skips surrounding whitespace, takes an optional sign
  and then decimal digits with single underscores between digits. Its whitespace is
  not that of \<^verbatim>\<open>str.strip\<close>: tab, line feed, vertical tab, form feed, carriage
  return and space, and the two spaces U+0085 and U+00A0, but not the separators
  U+001C to U+001F. A string of more than 4300 digits is refused.
\<close>

definition is_int_space :: "char \<Rightarrow> bool" where
  "is_int_space c = (of_char c \<in> {9, 10, 11, 12, 13, 32, 133, 160 :: nat})"

definition int_max_str_digits :: nat where
  "int_max_str_digits = 4300"

definition is_digit :: "char \<Rightarrow> bool" where
  "is_digit c = (48 \<le> (of_char c :: nat) \<and> (of_char c :: nat) \<le> 57)"

definition digit_val :: "char \<Rightarrow> int" where
  "digit_val c = int (of_char c) - 48"

fun scan_digits :: "int \<Rightarrow> string \<Rightarrow> int option" where
  "scan_digits acc [] = Some acc"
| "scan_digits acc [c] = (if is_digit c then Some (10 * acc + digit_val c) else None)"
| "scan_digits acc (c # d # cs) =
     (if is_digit c then scan_digits (10 * acc + digit_val c) (d # cs)
      else if c = CHR ''_'' \<and> is_digit d then scan_digits (10 * acc + digit_val d) cs
      else None)"

definition parse_digits :: "string \<Rightarrow> int option" where
  "parse_digits s =
     (if int_max_str_digits < length (filter is_digit s) then None
      else case s of [] \<Rightarrow> None
      | c # cs \<Rightarrow> if is_digit c then scan_digits (digit_val c) cs else None)"

definition parse_int :: "string \<Rightarrow> int option" where
  "parse_int s =
     (case rev (dropWhile is_int_space (rev (dropWhile is_int_space s))) of
        [] \<Rightarrow> None
      | c # cs \<Rightarrow>
          if c = CHR ''-'' then map_option uminus (parse_digits cs)
          else if c = CHR ''+'' then parse_digits cs
          else parse_digits (c # cs))"

fun py_int :: "val \<Rightarrow> exn + int" where
  "py_int (VInt n) = Inr n"
| "py_int (VBool b) = Inr (if b then 1 else 0)"
| "py_int (VStr s) = (case parse_int s of None \<Rightarrow> Inl ValueError | Some n \<Rightarrow> Inr n)"
| "py_int VNone = Inl TypeError"
| "py_int (VOid n) = Inl TypeError"

text \<open>
  \<^verbatim>\<open>str(x)\<close>: of an object identifier its 24 hexadecimal digits, of an integer its
  decimal digits.
\<close>

definition hex_digit :: "nat \<Rightarrow> char" where
  "hex_digit n = ''0123456789abcdef'' ! (n mod 16)"

fun hex_digits :: "nat \<Rightarrow> nat \<Rightarrow> string" where
  "hex_digits 0 n = []"
| "hex_digits (Suc k) n = hex_digits k (n div 16) @ [hex_digit n]"

definition hex24 :: "nat \<Rightarrow> string" where
  "hex24 n = hex_digits 24 n"

function dec_nat :: "nat \<Rightarrow> string" where
  "dec_nat n =
     (if n < 10 then [''0123456789'' ! n]
      else dec_nat (n div 10) @ [''0123456789'' ! (n mod 10)])"
  by pat_completeness auto
termination
  by (relation "measure id") auto

fun py_str :: "val \<Rightarrow> string" where
  "py_str (VOid n) = hex24 n"
| "py_str (VStr s) = s"
| "py_str (VInt n) = (if n < 0 then CHR ''-'' # dec_nat (nat (- n)) else dec_nat (nat n))"
| "py_str (VBool b) = (if b then ''True'' else ''False'')"
| "py_str VNone = ''None''"

section \<open>The document store\<close>

text \<open>
  Modelled from the spec: the module \<^verbatim>\<open>database\<close> (the handle \<^verbatim>\<open>db\<close>,
  \<^verbatim>\<open>create_document\<close>, \<^verbatim>\<open>get_documents\<close>) and the store behind it are not among
  the sources. The spec names the contract: a generic document store with
  collection-scoped insert, find-all, find-one-by-field and an aggregation pipeline
  (match, group, sort, limit) with MongoDB-style semantics, that assigns every
  document an identifier, and whose operations can fail (a write that fails, an
  aggregation that throws, a store that is unreachable).

  A connection holds the collections by name; a document is stored with its
  identifier. \<open>faults\<close> schedules the failures: every store operation takes the head
  of the list and raises when it is \<open>True\<close> (an empty list: no more failures).
  \<open>handle_truth\<close> is what \<^verbatim>\<open>bool(db)\<close> gives for the handle object, whose class is
  not among the sources either: a truth value, or an exception where the class
  refuses truth testing. \<open>coll_names\<close> are the names of the collections the store
  lists (a collection is created by its first insert), and \<open>failure_message\<close> is
  the text of the exception a failing operation raises. The handle \<^verbatim>\<open>db\<close> is
  \<^verbatim>\<open>None\<close> when no connection was configured.
\<close>

record conn =
  colls :: "string \<Rightarrow> (nat \<times> doc) list"
  next_oid :: nat
  faults :: "bool list"
  handle_truth :: "exn + bool"
  coll_names :: "string list"
  failure_message :: string

type_synonym db = "conn option"

definition with_id :: "nat \<times> doc \<Rightarrow> doc" where
  "with_id s = (''_id'', VOid (fst s)) # AList.delete ''_id'' (snd s)"

definition documents :: "conn \<Rightarrow> string \<Rightarrow> doc list" where
  "documents c name = map with_id (colls c name)"

definition fails_next :: "conn \<Rightarrow> bool" where
  "fails_next c = (case faults c of [] \<Rightarrow> False | b # bs \<Rightarrow> b)"

definition advance :: "conn \<Rightarrow> conn" where
  "advance c = c\<lparr>faults := tl (faults c)\<rparr>"

definition attempt :: "conn \<Rightarrow> (conn \<Rightarrow> 'a \<times> conn) \<Rightarrow> (exn + 'a) \<times> conn" where
  "attempt c f =
     (if fails_next c then (Inl StoreFailure, advance c)
      else (case f (advance c) of (r, c') \<Rightarrow> (Inr r, c')))"

definition count_documents :: "conn \<Rightarrow> string \<Rightarrow> (exn + nat) \<times> conn" where
  "count_documents c name = attempt c (\<lambda>c. (length (colls c name), c))"

definition find_all :: "conn \<Rightarrow> string \<Rightarrow> (exn + doc list) \<times> conn" where
  "find_all c name = attempt c (\<lambda>c. (documents c name, c))"

definition find_one :: "conn \<Rightarrow> string \<Rightarrow> string \<Rightarrow> val \<Rightarrow> (exn + doc option) \<times> conn" where
  "find_one c name field v =
     attempt c (\<lambda>c. (List.find (\<lambda>d. map_of d field = Some v) (documents c name), c))"

definition inserted :: "conn \<Rightarrow> string \<Rightarrow> doc \<Rightarrow> conn" where
  "inserted c name d =
     c\<lparr>colls := (colls c)(name := colls c name @ [(next_oid c, d)]),
       next_oid := Suc (next_oid c),
       coll_names := List.insert name (coll_names c)\<rparr>"

definition insert_one :: "conn \<Rightarrow> string \<Rightarrow> doc \<Rightarrow> (exn + nat) \<times> conn" where
  "insert_one c name d = attempt c (\<lambda>c. (next_oid c, inserted c name d))"

definition list_collection_names :: "conn \<Rightarrow> (exn + string list) \<times> conn" where
  "list_collection_names c = attempt c (\<lambda>c. (coll_names c, c))"

text \<open>
  The aggregation pipeline. \<open>Match k v\<close> keeps the documents whose field \<open>k\<close> is
  \<open>v\<close>; \<open>Group k out f\<close> groups by the value of field \<open>k\<close> (a missing field groups
  as \<^verbatim>\<open>null\<close>) and sums field \<open>f\<close> into \<open>out\<close>, a value that is not a number
  counting as 0, as \<^verbatim>\<open>$sum\<close> does; \<open>Sort k dir\<close> sorts by the integer in field \<open>k\<close>,
  descending when \<open>dir\<close> is negative; \<open>Limit n\<close> keeps the first \<open>n\<close>. The store
  leaves the order of groups and of ties open; here groups come in the order of their
  first document and sorting is stable.
\<close>

datatype stage = Match string val | Group string string string | Sort string int | Limit nat

definition num_field :: "doc \<Rightarrow> string \<Rightarrow> int" where
  "num_field d k = (case map_of d k of Some (VInt n) \<Rightarrow> n | _ \<Rightarrow> 0)"

fun bump :: "val \<Rightarrow> int \<Rightarrow> (val \<times> int) list \<Rightarrow> (val \<times> int) list" where
  "bump k n [] = [(k, n)]"
| "bump k n ((k', t) # rest) = (if k = k' then (k', t + n) # rest else (k', t) # bump k n rest)"

definition group_sum :: "string \<Rightarrow> string \<Rightarrow> doc list \<Rightarrow> (val \<times> int) list" where
  "group_sum k f ds = foldl (\<lambda>acc d. bump (get_default d k VNone) (num_field d f) acc) [] ds"

fun run_stage :: "stage \<Rightarrow> doc list \<Rightarrow> doc list" where
  "run_stage (Match k v) ds = filter (\<lambda>d. map_of d k = Some v) ds"
| "run_stage (Group k out f) ds = map (\<lambda>(g, t). [(''_id'', g), (out, VInt t)]) (group_sum k f ds)"
| "run_stage (Sort k dir) ds =
     (if dir < 0 then sort_key (\<lambda>d. - num_field d k) ds else sort_key (\<lambda>d. num_field d k) ds)"
| "run_stage (Limit n) ds = take n ds"

definition run_pipeline :: "stage list \<Rightarrow> doc list \<Rightarrow> doc list" where
  "run_pipeline stages ds = foldl (\<lambda>acc st. run_stage st acc) ds stages"

definition aggregate :: "conn \<Rightarrow> string \<Rightarrow> stage list \<Rightarrow> (exn + doc list) \<times> conn" where
  "aggregate c name stages = attempt c (\<lambda>c. (run_pipeline stages (documents c name), c))"

text \<open>
  Modelled from the spec: \<^verbatim>\<open>create_document\<close> and \<^verbatim>\<open>get_documents\<close> of the missing
  module \<^verbatim>\<open>database\<close>: the collection-scoped insert of a validated model and
  find-all, both failing when there is no handle.
\<close>

definition create_document :: "db \<Rightarrow> string \<Rightarrow> doc \<Rightarrow> (exn + nat) \<times> db" where
  "create_document db name d =
     (case db of
        None \<Rightarrow> (Inl StoreFailure, None)
      | Some c \<Rightarrow> (case insert_one c name d of (r, c') \<Rightarrow> (r, Some c')))"

definition get_documents :: "db \<Rightarrow> string \<Rightarrow> (exn + doc list) \<times> db" where
  "get_documents db name =
     (case db of
        None \<Rightarrow> (Inl StoreFailure, None)
      | Some c \<Rightarrow> (case find_all c name of (r, c') \<Rightarrow> (r, Some c')))"

section \<open>The schemas of \<^verbatim>\<open>schemas.py\<close>\<close>

text \<open>
  A validated model is written to the store as its field dictionary, so a constructor
  gives that dictionary, or \<^verbatim>\<open>ValidationError\<close> where a constraint of the schema
  fails (\<open>difficulty\<close> is one of three literals, \<open>points\<close> is at least 0).
\<close>

definition DIFFICULTY :: "string list" where
  "DIFFICULTY = [''Easy'', ''Medium'', ''Hard'']"

definition Ctfchallenge ::
  "string \<Rightarrow> string \<Rightarrow> string \<Rightarrow> string \<Rightarrow> string \<Rightarrow> string option \<Rightarrow> string \<Rightarrow> int \<Rightarrow> exn + doc" where
  "Ctfchallenge cid title category difficulty description hint flg points =
     (if difficulty \<in> set DIFFICULTY \<and> 0 \<le> points then
        Inr [(''challenge_id'', VStr cid), (''title'', VStr title), (''category'', VStr category),
             (''difficulty'', VStr difficulty), (''description'', VStr description),
             (''hint'', case hint of None \<Rightarrow> VNone | Some h \<Rightarrow> VStr h),
             (''flag'', VStr flg), (''points'', VInt points)]
      else Inl ValidationError)"

definition Ctfsubmission :: "string \<Rightarrow> string \<Rightarrow> string \<Rightarrow> bool \<Rightarrow> int \<Rightarrow> exn + doc" where
  "Ctfsubmission cid user submitted correct points_awarded =
     Inr [(''challenge_id'', VStr cid), (''username'', VStr user),
          (''submitted_flag'', VStr submitted), (''correct'', VBool correct),
          (''points_awarded'', VInt points_awarded)]"

section \<open>The handlers of \<^verbatim>\<open>main.py\<close>\<close>

definition bind_exn :: "exn + 'a \<Rightarrow> ('a \<Rightarrow> exn + 'b) \<Rightarrow> exn + 'b" where
  "bind_exn m f = (case m of Inl e \<Rightarrow> Inl e | Inr x \<Rightarrow> f x)"

fun traverse :: "('a \<Rightarrow> exn + 'b) \<Rightarrow> 'a list \<Rightarrow> exn + 'b list" where
  "traverse f [] = Inr []"
| "traverse f (x # xs) = bind_exn (f x) (\<lambda>y. bind_exn (traverse f xs) (\<lambda>ys. Inr (y # ys)))"

subsection \<open>Seeding\<close>

definition DIFF_POINTS :: "(string \<times> int) list" where
  "DIFF_POINTS = [(''Easy'', 100), (''Medium'', 200), (''Hard'', 300)]"

definition diff_points :: "string \<Rightarrow> exn + int" where
  "diff_points k = (case map_of DIFF_POINTS k of None \<Rightarrow> Inl KeyError | Some n \<Rightarrow> Inr n)"

definition samples :: "exn + doc list" where
  "samples =
     bind_exn (diff_points ''Easy'') (\<lambda>p1.
     bind_exn (Ctfchallenge ''web-101'' ''Login Bypass Basics'' ''Web'' ''Easy''
         ''Bypass a weak login form using basic SQL injection techniques.''
         (Some ''Try using logical operators to make a condition always true.'')
         ''FLAG{BAS1C_SQLI}'' p1) (\<lambda>s1.
     bind_exn (diff_points ''Medium'') (\<lambda>p2.
     bind_exn (Ctfchallenge ''crypto-201'' ''XOR Secrets'' ''Crypto'' ''Medium''
         ''Recover a plaintext by analyzing repeated-key XOR.''
         (Some ''Frequency analysis on XORed text can reveal the key.'')
         ''FLAG{X0R_K3Y}'' p2) (\<lambda>s2.
     bind_exn (diff_points ''Hard'') (\<lambda>p3.
     bind_exn (Ctfchallenge ''pwn-301'' ''Buffer Overflow Warmup'' ''Pwn'' ''Hard''
         ''Exploit a classic stack buffer overflow to overwrite return address.''
         (Some ''Understand calling conventions and NOP sleds.'')
         ''FLAG{0V3RFL0W}'' p3) (\<lambda>s3.
     Inr [s1, s2, s3]))))))"

text \<open>One turn of the loop: an insert that fails is ignored.\<close>

definition seed_insert :: "db \<Rightarrow> doc \<Rightarrow> db" where
  "seed_insert db s = snd (create_document db ''ctfchallenge'' s)"

text \<open>The body of the outer \<^verbatim>\<open>try\<close>, and the function with its catch-all handler.\<close>

definition seed_body :: "db \<Rightarrow> (exn + unit) \<times> db" where
  "seed_body db =
     (case db of
        None \<Rightarrow> (Inr (), None)
      | Some c \<Rightarrow>
          (case count_documents c ''ctfchallenge'' of
             (Inl e, c1) \<Rightarrow> (Inl e, Some c1)
           | (Inr count, c1) \<Rightarrow>
               if count = 0 then
                 (case samples of
                    Inl e \<Rightarrow> (Inl e, Some c1)
                  | Inr ss \<Rightarrow> (Inr (), foldl seed_insert (Some c1) ss))
               else (Inr (), Some c1)))"

definition seed_challenges :: "db \<Rightarrow> (exn + unit) \<times> db" where
  "seed_challenges db =
     (case seed_body db of
        (Inl e, db') \<Rightarrow> (Inr (), db')
      | (Inr u, db') \<Rightarrow> (Inr (), db'))"

subsection \<open>Listing the challenges\<close>

definition clean :: "doc \<Rightarrow> doc" where
  "clean d =
     (let d1 = AList.delete ''flag'' d in
      case map_of d1 ''_id'' of
        None \<Rightarrow> d1
      | Some v \<Rightarrow> AList.update ''id'' (VStr (py_str v)) (AList.delete ''_id'' d1))"

definition list_challenges :: "db \<Rightarrow> (exn + doc list) \<times> db" where
  "list_challenges db =
     (case get_documents db ''ctfchallenge'' of
        (Inl e, db') \<Rightarrow> (Inr [], db')
      | (Inr docs, db') \<Rightarrow> (Inr (map clean docs), db'))"

subsection \<open>The leaderboard\<close>

definition pipeline :: "stage list" where
  "pipeline =
     [Match ''correct'' (VBool True),
      Group ''username'' ''points'' ''points_awarded'',
      Sort ''points'' (- 1),
      Limit 20]"

definition row :: "doc \<Rightarrow> exn + doc" where
  "row r =
     bind_exn (getitem r ''_id'') (\<lambda>u.
     bind_exn (getitem r ''points'') (\<lambda>p.
     Inr [(''user'', u), (''points'', p)]))"

text \<open>
  The body of the \<^verbatim>\<open>try\<close>: \<^verbatim>\<open>... if db else []\<close> tests the truth value of the
  handle (\<^verbatim>\<open>None\<close> is false) before the aggregation runs.
\<close>

definition leaderboard_body :: "db \<Rightarrow> (exn + doc list) \<times> db" where
  "leaderboard_body db =
     (case db of
        None \<Rightarrow> (Inr [], None)
      | Some c \<Rightarrow>
          (case handle_truth c of
             Inl e \<Rightarrow> (Inl e, Some c)
           | Inr False \<Rightarrow> (Inr [], Some c)
           | Inr True \<Rightarrow>
               (case aggregate c ''ctfsubmission'' pipeline of
                  (Inl e, c1) \<Rightarrow> (Inl e, Some c1)
                | (Inr rows, c1) \<Rightarrow> (traverse row rows, Some c1))))"

definition leaderboard :: "db \<Rightarrow> (exn + doc list) \<times> db" where
  "leaderboard db =
     (case leaderboard_body db of
        (Inl e, db') \<Rightarrow> (Inr [], db')
      | (Inr rs, db') \<Rightarrow> (Inr rs, db'))"

subsection \<open>Submitting a flag\<close>

record SubmitPayload =
  challenge_id :: string
  username :: string
  flag :: string

text \<open>
  Lines 159 and 160: the trimmed flag is compared with the stored one (a string
  never equals a missing field or a value that is no string), and the points are
  converted only for a correct flag.
\<close>

definition judge :: "doc \<Rightarrow> string \<Rightarrow> exn + (bool \<times> int)" where
  "judge ch flg =
     (let correct = (map_of ch ''flag'' = Some (VStr (strip flg))) in
      if correct then bind_exn (py_int (get_default ch ''points'' (VInt 0))) (\<lambda>points. Inr (True, points))
      else Inr (False, 0))"

text \<open>\<^verbatim>\<open>payload.username.strip() or "anonymous"\<close>.\<close>

definition recorded_username :: "string \<Rightarrow> string" where
  "recorded_username u = (if strip u = [] then ''anonymous'' else strip u)"

text \<open>The \<^verbatim>\<open>try\<close> block of lines 161 to 172: whatever it raises is dropped.\<close>

definition record_submission :: "db \<Rightarrow> SubmitPayload \<Rightarrow> bool \<Rightarrow> int \<Rightarrow> db" where
  "record_submission db payload correct points =
     (case Ctfsubmission (challenge_id payload) (recorded_username (username payload))
             (flag payload) correct points of
        Inl e \<Rightarrow> db
      | Inr sub \<Rightarrow> snd (create_document db ''ctfsubmission'' sub))"

definition submit_flag :: "db \<Rightarrow> SubmitPayload \<Rightarrow> (exn + doc) \<times> db" where
  "submit_flag db payload =
     (case db of
        None \<Rightarrow> (Inl (HTTPException 503 ''Database unavailable''), None)
      | Some c \<Rightarrow>
          (case find_one c ''ctfchallenge'' ''challenge_id'' (VStr (challenge_id payload)) of
             (Inl e, c1) \<Rightarrow> (Inl e, Some c1)
           | (Inr None, c1) \<Rightarrow> (Inl (HTTPException 404 ''Challenge not found''), Some c1)
           | (Inr (Some ch), c1) \<Rightarrow>
               if ch = [] then (Inl (HTTPException 404 ''Challenge not found''), Some c1)
               else
                 (case judge ch (flag payload) of
                    Inl e \<Rightarrow> (Inl e, Some c1)
                  | Inr (correct, points) \<Rightarrow>
                      (Inr [(''correct'', VBool correct), (''points'', VInt points)],
                       record_submission (Some c1) payload correct points))))"

subsection \<open>The root and the diagnostic endpoint\<close>

text \<open>
  \<^verbatim>\<open>read_root\<close> returns a fixed message. \<^verbatim>\<open>test_database\<close> reports whether two
  environment variables are set (\<^verbatim>\<open>os.getenv\<close> is the parameter \<open>getenv\<close>) and probes
  the store by listing its collection names, of which it keeps ten; a probe that
  raises turns into a status text with the first 80 characters of the exception's
  message. Nothing outside the inner \<^verbatim>\<open>try\<close> can raise, so the outer handler is
  never entered. The three signs that start the status texts are characters beyond
  U+00FF and stand here as their UTF-8 bytes.
\<close>

definition read_root :: doc where
  "read_root = [(''message'', VStr ''CTF backend running'')]"

record Diagnostics =
  backend :: string
  database :: string
  database_url :: string
  database_name :: string
  connection_status :: string
  collections :: "string list"

definition check_mark :: string where
  "check_mark = [CHR 0xE2, CHR 0x9C, CHR 0x85]"

definition cross_mark :: string where
  "cross_mark = [CHR 0xE2, CHR 0x9D, CHR 0x8C]"

definition warning_sign :: string where
  "warning_sign = [CHR 0xE2, CHR 0x9A, CHR 0xA0, CHR 0xEF, CHR 0xB8, CHR 0x8F]"

definition env_set :: "string option \<Rightarrow> string" where
  "env_set v = (if v = None \<or> v = Some [] then cross_mark @ '' Not Set'' else check_mark @ '' Set'')"

definition test_database :: "(string \<Rightarrow> string option) \<Rightarrow> db \<Rightarrow> Diagnostics \<times> db" where
  "test_database getenv db =
     (let response =
        \<lparr>backend = check_mark @ '' Running'',
         database = cross_mark @ '' Not Available'',
         database_url = env_set (getenv ''DATABASE_URL''),
         database_name = env_set (getenv ''DATABASE_NAME''),
         connection_status = ''Not Connected'',
         collections = []\<rparr>
      in case db of
        None \<Rightarrow> (response\<lparr>database := warning_sign @ '' Available but not initialized''\<rparr>, None)
      | Some c \<Rightarrow>
          (let response1 = response\<lparr>database := check_mark @ '' Available'',
                                     connection_status := ''Connected''\<rparr>
           in case list_collection_names c of
             (Inl e, c1) \<Rightarrow>
               (response1\<lparr>database := warning_sign @ '' Connected but Error: '' @
                                        take 80 (failure_message c)\<rparr>, Some c1)
           | (Inr names, c1) \<Rightarrow>
               (response1\<lparr>collections := take 10 names,
                          database := check_mark @ '' Connected & Working''\<rparr>, Some c1)))"

text \<open>The dictionary of the submission that \<^verbatim>\<open>submit_flag\<close> writes.\<close>

definition submission_doc :: "SubmitPayload \<Rightarrow> bool \<Rightarrow> int \<Rightarrow> doc" where
  "submission_doc p b n = [(''challenge_id'', VStr (challenge_id p)),
          (''username'', VStr (recorded_username (username p))),
          (''submitted_flag'', VStr (flag p)), (''correct'', VBool b),
          (''points_awarded'', VInt n)]"

section \<open>The leaderboard in the words of the specification\<close>

text \<open>
  The specification's leaderboard, written from its sentence and not from the code:
  group the submissions with \<open>correct = true\<close> by \<open>username\<close>, sum
  \<open>points_awarded\<close> per group, sort non-increasing by the sum, take the first 20.
  Groups are listed in the order of their first submission and the sort is stable:
  the order the specification leaves to the store.
\<close>

definition spec_correct :: "doc list \<Rightarrow> doc list" where
  "spec_correct ds = filter (\<lambda>d. map_of d ''correct'' = Some (VBool True)) ds"

definition spec_user :: "doc \<Rightarrow> val" where
  "spec_user d = (case map_of d ''username'' of None \<Rightarrow> VNone | Some u \<Rightarrow> u)"

definition spec_users :: "doc list \<Rightarrow> val list" where
  "spec_users ds = rev (remdups (rev (map spec_user (spec_correct ds))))"

definition spec_total :: "doc list \<Rightarrow> val \<Rightarrow> int" where
  "spec_total ds u =
     sum_list (map (\<lambda>d. num_field d ''points_awarded'')
       (filter (\<lambda>d. spec_user d = u) (spec_correct ds)))"

definition spec_leaderboard :: "doc list \<Rightarrow> doc list" where
  "spec_leaderboard ds =
     map (\<lambda>(u, t). [(''user'', u), (''points'', VInt t)])
       (take 20 (sort_key (\<lambda>(u, t). - t) (map (\<lambda>u. (u, spec_total ds u)) (spec_users ds))))"

text \<open>
  The total of a user as the pipeline of \<^verbatim>\<open>leaderboard\<close> aggregates it: the
  \<open>points\<close> of the user's group after the match and group stages, 0 for a user with
  no group.
\<close>

definition totals :: "conn \<Rightarrow> doc list" where
  "totals c = run_pipeline (take 2 pipeline) (documents c ''ctfsubmission'')"

definition user_total :: "conn \<Rightarrow> val \<Rightarrow> int" where
  "user_total c u =
     (case List.find (\<lambda>r. map_of r ''_id'' = Some u) (totals c) of
        None \<Rightarrow> 0
      | Some r \<Rightarrow> num_field r ''points'')"

text \<open>Auxiliary notions of the proofs about grouping.\<close>

definition first_keys :: "('k \<times> int) list \<Rightarrow> 'k list" where
  "first_keys kvs = rev (remdups (rev (map fst kvs)))"

definition key_sum :: "('k \<times> int) list \<Rightarrow> 'k \<Rightarrow> int" where
  "key_sum kvs g = sum_list (map snd (filter (\<lambda>p. fst p = g) kvs))"

definition group_doc :: "val \<times> int \<Rightarrow> doc" where
  "group_doc p = [(''_id'', fst p), (''points'', VInt (snd p))]"

text \<open>
  The \<open>challenge_id\<close> of every stored challenge, in order, and the sample challenges
  that seeding builds.
\<close>

definition challenge_ids :: "conn \<Rightarrow> val option list" where
  "challenge_ids c = map (\<lambda>s. map_of (snd s) ''challenge_id'') (colls c ''ctfchallenge'')"

definition sample_docs :: "doc list" where
  "sample_docs = (case samples of Inl e \<Rightarrow> [] | Inr ss \<Rightarrow> ss)"

text \<open>
  The store with the \<open>flag\<close> field removed from every stored challenge: two stores
  with the same image differ at most in what their challenges' flag fields hold.
\<close>

definition hide_flags :: "conn \<Rightarrow> conn" where
  "hide_flags c =
     c\<lparr>colls := (colls c)(''ctfchallenge'' :=
          map (\<lambda>s. (fst s, AList.delete ''flag'' (snd s))) (colls c ''ctfchallenge''))\<rparr>"

section \<open>Example states\<close>

text \<open>
  A configured store with no documents; one that holds a challenge; the same with the
  store unreachable at the next operation; and with the second operation failing.
\<close>

definition empty_conn :: conn where
  "empty_conn = \<lparr>colls = (\<lambda>name. []), next_oid = 0, faults = [], handle_truth = Inr True,
     coll_names = [], failure_message = ''connection refused''\<rparr>"

definition web_101 :: doc where
  "web_101 = [(''challenge_id'', VStr ''web-101''), (''title'', VStr ''Login Bypass Basics''),
     (''flag'', VStr ''FLAG{BAS1C_SQLI}''), (''points'', VInt 100)]"

definition one_challenge :: conn where
  "one_challenge = empty_conn\<lparr>colls := (\<lambda>name. [])(''ctfchallenge'' := [(7, web_101)]), next_oid := 8,
     coll_names := [''ctfchallenge'']\<rparr>"

definition offline :: conn where
  "offline = one_challenge\<lparr>faults := [True]\<rparr>"

definition write_fails :: conn where
  "write_fails = one_challenge\<lparr>faults := [False, True]\<rparr>"

text \<open>A store with four submissions, and the same after one more correct one by alice.\<close>

definition sub :: "string \<Rightarrow> string \<Rightarrow> bool \<Rightarrow> int \<Rightarrow> doc" where
  "sub cid user ok pts = submission_doc \<lparr>challenge_id = cid, username = user, flag = ''x''\<rparr> ok pts"

definition board_conn :: conn where
  "board_conn = empty_conn\<lparr>colls := (\<lambda>name. [])(''ctfsubmission'' :=
      [(1, sub ''web-101'' ''alice'' True 100),
       (2, sub ''pwn-301'' ''bob'' True 300),
       (3, sub ''pwn-301'' ''eve'' False 0),
       (4, sub ''web-101'' ''alice'' True 100)]), next_oid := 5,
     coll_names := [''ctfsubmission'']\<rparr>"

definition board_conn' :: conn where
  "board_conn' = board_conn\<lparr>colls := (colls board_conn)(''ctfsubmission'' :=
      colls board_conn ''ctfsubmission'' @ [(5, sub ''web-101'' ''alice'' True 100)]), next_oid := 6\<rparr>"

text \<open>The store with one challenge, its flag replaced by another.\<close>

definition other_flag :: conn where
  "other_flag = one_challenge\<lparr>colls := (\<lambda>name. [])(''ctfchallenge'' :=
      [(7, [(''challenge_id'', VStr ''web-101''), (''title'', VStr ''Login Bypass Basics''),
            (''flag'', VStr ''FLAG{N0T_TH1S}''), (''points'', VInt 100)])])\<rparr>"

text \<open>
  The store with one challenge, and the store with four submissions, behind a handle
  that refuses truth testing, as the handles of the MongoDB driver do; and two
  submissions of the right flag for \<^verbatim>\<open>web-101\<close>, one by alice and one with a
  blank username.
\<close>

definition refusing :: conn where
  "refusing = one_challenge\<lparr>handle_truth := Inl NotImplementedError\<rparr>"

definition board_refusing :: conn where
  "board_refusing = board_conn\<lparr>handle_truth := Inl NotImplementedError\<rparr>"

definition alice_submits :: SubmitPayload where
  "alice_submits = \<lparr>challenge_id = ''web-101'', username = ''alice'', flag = ''FLAG{BAS1C_SQLI}''\<rparr>"


section \<open>Properties\<close>

subsection \<open>Store operations\<close>

lemma advance_simps [simp]:
  "colls (advance c) = colls c" "next_oid (advance c) = next_oid c"
  "handle_truth (advance c) = handle_truth c" "faults (advance c) = tl (faults c)"
  by (simp_all add: advance_def)

lemma inserted_simps [simp]:
  "colls (inserted c name d) = (colls c)(name := colls c name @ [(next_oid c, d)])"
  "next_oid (inserted c name d) = Suc (next_oid c)"
  "faults (inserted c name d) = faults c"
  "handle_truth (inserted c name d) = handle_truth c"
  "coll_names (inserted c name d) = List.insert name (coll_names c)"
  "failure_message (inserted c name d) = failure_message c"
  by (simp_all add: inserted_def)

lemma advance_more_simps [simp]:
  "coll_names (advance c) = coll_names c" "failure_message (advance c) = failure_message c"
  by (simp_all add: advance_def)

lemma fails_next_inserted [simp]: "fails_next (inserted c name d) = fails_next c"
  by (simp add: fails_next_def)

lemma documents_advance [simp]: "documents (advance c) name = documents c name"
  by (simp add: documents_def)

lemma find_one_fail: "fails_next c \<Longrightarrow> find_one c name k v = (Inl StoreFailure, advance c)"
  by (simp add: find_one_def attempt_def)

lemma find_one_ok:
  "\<not> fails_next c \<Longrightarrow>
   find_one c name k v = (Inr (List.find (\<lambda>d. map_of d k = Some v) (documents c name)), advance c)"
  by (simp add: find_one_def attempt_def)

lemma insert_one_fail: "fails_next c \<Longrightarrow> insert_one c name d = (Inl StoreFailure, advance c)"
  by (simp add: insert_one_def attempt_def)

lemma insert_one_ok:
  "\<not> fails_next c \<Longrightarrow>
   insert_one c name d =
     (Inr (next_oid c),
      inserted (advance c) name d)"
  by (simp add: insert_one_def attempt_def)

lemma found_document:
  assumes "List.find P (documents c name) = Some ch"
  shows "ch \<noteq> []" and "\<exists>n. map_of ch ''_id'' = Some (VOid n)"
proof -
  from assms have "ch \<in> set (documents c name)"
    by (auto simp: find_Some_iff)
  then obtain s where "ch = with_id s"
    by (auto simp: documents_def)
  then show "ch \<noteq> []" and "\<exists>n. map_of ch ''_id'' = Some (VOid n)"
    by (simp_all add: with_id_def)
qed

lemma record_submission_fail:
  "fails_next c \<Longrightarrow> record_submission (Some c) p b n = Some (advance c)"
  by (simp add: record_submission_def Ctfsubmission_def create_document_def insert_one_fail)

lemma record_submission_ok:
  "\<not> fails_next c \<Longrightarrow>
   record_submission (Some c) p b n =
     Some (inserted (advance c) ''ctfsubmission'' (submission_doc p b n))"
  by (simp add: record_submission_def Ctfsubmission_def create_document_def insert_one_ok submission_doc_def)

lemma submit_flag_found:
  assumes "\<not> fails_next c"
    and "List.find (\<lambda>d. map_of d ''challenge_id'' = Some (VStr (challenge_id p)))
           (documents c ''ctfchallenge'') = Some ch"
    and "judge ch (flag p) = Inr (b, n)"
  shows "submit_flag (Some c) p =
     (Inr [(''correct'', VBool b), (''points'', VInt n)], record_submission (Some (advance c)) p b n)"
  using assms found_document(1)[OF assms(2)]
  by (simp add: submit_flag_def find_one_ok)

lemma judge_typed:
  assumes "map_of ch ''flag'' = Some (VStr f)" and "map_of ch ''points'' = Some (VInt n)"
  shows "judge ch flg = Inr (strip flg = f, if strip flg = f then n else 0)"
  using assms by (auto simp: judge_def get_default_def bind_exn_def)


subsection \<open>Scoring a submission\<close>

text \<open>
  Claim C1. When the lookup of \<^verbatim>\<open>submit_flag\<close> completes and finds a challenge
  with flag \<open>f\<close> and points \<open>n\<close>, the response is \<^verbatim>\<open>{correct, points}\<close> with
  \<open>correct\<close> true exactly when the trimmed submitted flag equals \<open>f\<close> as a string,
  and \<open>points\<close> equal to \<open>n\<close> when correct and 0 otherwise; the challenges are left
  as they were, and unless the write fails the submissions gain one document that
  carries the same \<open>correct\<close> and \<open>points_awarded\<close>.
\<close>

theorem submit_flag_scores:
  assumes "\<not> fails_next c"
    and "List.find (\<lambda>d. map_of d ''challenge_id'' = Some (VStr (challenge_id p)))
           (documents c ''ctfchallenge'') = Some ch"
    and "map_of ch ''flag'' = Some (VStr f)"
    and "map_of ch ''points'' = Some (VInt n)"
    and "b = (strip (flag p) = f)"
    and "pts = (if b then n else 0)"
  shows "fst (submit_flag (Some c) p) = Inr [(''correct'', VBool b), (''points'', VInt pts)] \<and>
    (\<exists>c'. snd (submit_flag (Some c) p) = Some c' \<and>
       colls c' ''ctfchallenge'' = colls c ''ctfchallenge'' \<and>
       colls c' ''ctfsubmission'' =
         (if fails_next (advance c) then colls c ''ctfsubmission''
          else colls c ''ctfsubmission'' @
            [(next_oid c,
              [(''challenge_id'', VStr (challenge_id p)),
               (''username'', VStr (recorded_username (username p))),
               (''submitted_flag'', VStr (flag p)),
               (''correct'', VBool b),
               (''points_awarded'', VInt pts)])]))"
proof -
  have j: "judge ch (flag p) = Inr (b, pts)"
    using assms(3-6) by (simp add: judge_typed)
  have s: "submit_flag (Some c) p =
     (Inr [(''correct'', VBool b), (''points'', VInt pts)],
      record_submission (Some (advance c)) p b pts)"
    using assms(1,2) j by (rule submit_flag_found)
  show ?thesis
  proof (cases "fails_next (advance c)")
    case True
    then show ?thesis
      by (simp add: s record_submission_fail)
  next
    case False
    then show ?thesis
      by (simp add: s record_submission_ok submission_doc_def)
  qed
qed

theorem submit_flag_scores_witness:
  "fst (submit_flag (Some one_challenge)
          \<lparr>challenge_id = ''web-101'', username = ''alice'', flag = '' FLAG{BAS1C_SQLI}  ''\<rparr>)
     = Inr [(''correct'', VBool True), (''points'', VInt 100)] \<and>
   fst (submit_flag (Some one_challenge)
          \<lparr>challenge_id = ''web-101'', username = ''alice'', flag = ''flag{bas1c_sqli}''\<rparr>)
     = Inr [(''correct'', VBool False), (''points'', VInt 0)]"
proof -
  have d: "documents one_challenge ''ctfchallenge'' = [(''_id'', VOid 7) # web_101]"
    by (simp add: documents_def one_challenge_def empty_conn_def with_id_def web_101_def)
  have nf: "\<not> fails_next one_challenge"
    by (simp add: fails_next_def one_challenge_def empty_conn_def)
  have s1: "strip '' FLAG{BAS1C_SQLI}  '' = ''FLAG{BAS1C_SQLI}''"
    by (simp add: strip_def is_space_def)
  have s2: "strip ''flag{bas1c_sqli}'' = ''flag{bas1c_sqli}''"
    by (simp add: strip_def is_space_def)
  show ?thesis
    using
      submit_flag_scores [of one_challenge
        "\<lparr>challenge_id = ''web-101'', username = ''alice'', flag = '' FLAG{BAS1C_SQLI}  ''\<rparr>"
        "(''_id'', VOid 7) # web_101" "''FLAG{BAS1C_SQLI}''" 100 True 100]
      submit_flag_scores [of one_challenge
        "\<lparr>challenge_id = ''web-101'', username = ''alice'', flag = ''flag{bas1c_sqli}''\<rparr>"
        "(''_id'', VOid 7) # web_101" "''FLAG{BAS1C_SQLI}''" 100 False 0]
    by (simp add: d nf s1 s2 web_101_def)
qed

lemma documents_one_challenge:
  "documents one_challenge ''ctfchallenge'' = [(''_id'', VOid 7) # web_101]"
  by (simp add: documents_def one_challenge_def empty_conn_def with_id_def web_101_def)

lemma judge_int_points:
  assumes "map_of ch ''points'' = Some (VInt n)"
  shows "\<exists>b m. judge ch flg = Inr (b, m)"
  using assms by (auto simp: judge_def get_default_def bind_exn_def Let_def)

lemma submit_flag_no_handle:
  "submit_flag None p = (Inl (HTTPException 503 ''Database unavailable''), None)"
  by (simp add: submit_flag_def)

lemma submit_flag_lookup_fails:
  "fails_next c \<Longrightarrow> submit_flag (Some c) p = (Inl StoreFailure, Some (advance c))"
  by (simp add: submit_flag_def find_one_fail)

lemma submit_flag_unknown:
  assumes "\<not> fails_next c"
    and "List.find (\<lambda>d. map_of d ''challenge_id'' = Some (VStr (challenge_id p)))
           (documents c ''ctfchallenge'') = None"
  shows "submit_flag (Some c) p = (Inl (HTTPException 404 ''Challenge not found''), Some (advance c))"
  using assms by (simp add: submit_flag_def find_one_ok)

lemma submit_flag_judge_raises:
  assumes "\<not> fails_next c"
    and "List.find (\<lambda>d. map_of d ''challenge_id'' = Some (VStr (challenge_id p)))
           (documents c ''ctfchallenge'') = Some ch"
    and "judge ch (flag p) = Inl e"
  shows "submit_flag (Some c) p = (Inl e, Some (advance c))"
  using assms found_document(1)[OF assms(2)] by (simp add: submit_flag_def find_one_ok)

lemma judge_no_http: "judge ch flg \<noteq> Inl (HTTPException st msg)"
proof -
  have "py_int v \<noteq> Inl (HTTPException st msg)" for v
    by (cases v) (auto split: option.splits)
  then show ?thesis
    by (auto simp: judge_def bind_exn_def Let_def split: sum.splits)
qed

subsection \<open>The errors of a submission\<close>

text \<open>
  Claim C2: \<^verbatim>\<open>submit_flag\<close> is to fail with status 503 whenever the store is
  unreachable at request time, with 404 when no challenge matches, and with no other
  error. The code answers 503 only when there is no handle. With a handle and the
  store unreachable, the lookup, the one store call of \<^verbatim>\<open>main.py\<close> outside any
  \<^verbatim>\<open>try\<close>, raises, and the store's exception leaves \<^verbatim>\<open>submit_flag\<close> as it is:
  neither 503 nor 404 nor a normal response.
\<close>

theorem submit_flag_store_unreachable:
  "offline = one_challenge\<lparr>faults := [True]\<rparr> \<and>
   fst (submit_flag (Some offline)
          \<lparr>challenge_id = ''web-101'', username = ''alice'', flag = ''FLAG{BAS1C_SQLI}''\<rparr>)
     = Inl StoreFailure \<and>
   fst (submit_flag None
          \<lparr>challenge_id = ''web-101'', username = ''alice'', flag = ''FLAG{BAS1C_SQLI}''\<rparr>)
     = Inl (HTTPException 503 ''Database unavailable'')"
  by (simp add: submit_flag_lookup_fails submit_flag_no_handle fails_next_def offline_def)

text \<open>
  What \<^verbatim>\<open>submit_flag\<close> does otherwise: status 503 without a handle, status 404 when
  the lookup completes and no challenge has the given \<open>challenge_id\<close>, a normal
  response when the lookup completes and finds a challenge whose points are an
  integer; and an HTTP error it raises is one of these two, in one of these two cases.
\<close>

lemma submit_flag_errors:
  "fst (submit_flag None p) = Inl (HTTPException 503 ''Database unavailable'') \<and>
   (\<not> fails_next c \<and>
    List.find (\<lambda>d. map_of d ''challenge_id'' = Some (VStr (challenge_id p)))
      (documents c ''ctfchallenge'') = None \<longrightarrow>
    fst (submit_flag (Some c) p) = Inl (HTTPException 404 ''Challenge not found'')) \<and>
   (\<not> fails_next c \<and>
    List.find (\<lambda>d. map_of d ''challenge_id'' = Some (VStr (challenge_id p)))
      (documents c ''ctfchallenge'') = Some ch \<and>
    map_of ch ''points'' = Some (VInt n) \<longrightarrow>
    (\<exists>b m. fst (submit_flag (Some c) p) = Inr [(''correct'', VBool b), (''points'', VInt m)])) \<and>
   (fst (submit_flag db p) = Inl (HTTPException status msg) \<longrightarrow>
    (status = 503 \<and> db = None) \<or>
    (status = 404 \<and> (\<exists>c'. db = Some c' \<and> \<not> fails_next c' \<and>
       List.find (\<lambda>d. map_of d ''challenge_id'' = Some (VStr (challenge_id p)))
         (documents c' ''ctfchallenge'') = None)))"
proof (intro conjI impI)
  show "fst (submit_flag None p) = Inl (HTTPException 503 ''Database unavailable'')"
    by (simp add: submit_flag_no_handle)
next
  assume "\<not> fails_next c \<and>
    List.find (\<lambda>d. map_of d ''challenge_id'' = Some (VStr (challenge_id p)))
      (documents c ''ctfchallenge'') = None"
  then show "fst (submit_flag (Some c) p) = Inl (HTTPException 404 ''Challenge not found'')"
    by (simp add: submit_flag_unknown)
next
  assume a: "\<not> fails_next c \<and>
    List.find (\<lambda>d. map_of d ''challenge_id'' = Some (VStr (challenge_id p)))
      (documents c ''ctfchallenge'') = Some ch \<and>
    map_of ch ''points'' = Some (VInt n)"
  then obtain b m where "judge ch (flag p) = Inr (b, m)"
    using judge_int_points by blast
  with a have "fst (submit_flag (Some c) p) = Inr [(''correct'', VBool b), (''points'', VInt m)]"
    by (simp add: submit_flag_found)
  then show "\<exists>b m. fst (submit_flag (Some c) p) = Inr [(''correct'', VBool b), (''points'', VInt m)]"
    by blast
next
  assume h: "fst (submit_flag db p) = Inl (HTTPException status msg)"
  show "(status = 503 \<and> db = None) \<or>
    (status = 404 \<and> (\<exists>c'. db = Some c' \<and> \<not> fails_next c' \<and>
       List.find (\<lambda>d. map_of d ''challenge_id'' = Some (VStr (challenge_id p)))
         (documents c' ''ctfchallenge'') = None))"
  proof (cases db)
    case None
    with h show ?thesis by (simp add: submit_flag_no_handle)
  next
    case (Some c')
    show ?thesis
    proof (cases "fails_next c'")
      case True
      with h Some show ?thesis by (simp add: submit_flag_lookup_fails)
    next
      case nf: False
      show ?thesis
      proof (cases "List.find (\<lambda>d. map_of d ''challenge_id'' = Some (VStr (challenge_id p)))
         (documents c' ''ctfchallenge'')")
        case None
        with h Some nf show ?thesis by (simp add: submit_flag_unknown)
      next
        case (Some ch')
        show ?thesis
        proof (cases "judge ch' (flag p)")
          case (Inl e)
          with h \<open>db = Some c'\<close> nf Some judge_no_http [of ch' "flag p" status msg]
          show ?thesis by (simp add: submit_flag_judge_raises)
        next
          case (Inr r)
          with h \<open>db = Some c'\<close> nf Some show ?thesis
            by (cases r) (simp add: submit_flag_found)
        qed
      qed
    qed
  qed
qed

lemma submit_flag_errors_example:
  "fst (submit_flag None \<lparr>challenge_id = ''web-101'', username = ''alice'', flag = ''x''\<rparr>)
     = Inl (HTTPException 503 ''Database unavailable'') \<and>
   fst (submit_flag (Some one_challenge)
          \<lparr>challenge_id = ''no-such-id'', username = ''alice'', flag = ''x''\<rparr>)
     = Inl (HTTPException 404 ''Challenge not found'') \<and>
   (\<exists>b m. fst (submit_flag (Some one_challenge)
          \<lparr>challenge_id = ''web-101'', username = ''alice'', flag = ''x''\<rparr>)
     = Inr [(''correct'', VBool b), (''points'', VInt m)])"
proof -
  have nf: "\<not> fails_next one_challenge"
    by (simp add: fails_next_def one_challenge_def empty_conn_def)
  show ?thesis
    using
      submit_flag_errors [of "\<lparr>challenge_id = ''web-101'', username = ''alice'', flag = ''x''\<rparr>"
        one_challenge "(''_id'', VOid 7) # web_101" 100 None 503 "''Database unavailable''"]
      submit_flag_errors [of "\<lparr>challenge_id = ''no-such-id'', username = ''alice'', flag = ''x''\<rparr>"
        one_challenge "[]" 0 None 503 "''Database unavailable''"]
    by (simp add: nf documents_one_challenge web_101_def)
qed

text \<open>
  Claim C9. When the lookup completes and finds a challenge and the flag is judged,
  a write that fails is swallowed: \<^verbatim>\<open>submit_flag\<close> returns the computed
  \<^verbatim>\<open>{correct, points}\<close> and raises nothing; the store is as it was, two scheduled
  operations later.
\<close>

theorem submit_flag_write_failure:
  assumes "\<not> fails_next c"
    and "List.find (\<lambda>d. map_of d ''challenge_id'' = Some (VStr (challenge_id p)))
           (documents c ''ctfchallenge'') = Some ch"
    and "judge ch (flag p) = Inr (b, n)"
    and "fails_next (advance c)"
  shows "submit_flag (Some c) p =
     (Inr [(''correct'', VBool b), (''points'', VInt n)], Some (advance (advance c)))"
  using assms by (simp add: submit_flag_found record_submission_fail)

theorem submit_flag_write_failure_witness:
  "submit_flag (Some write_fails)
     \<lparr>challenge_id = ''web-101'', username = ''alice'', flag = ''FLAG{BAS1C_SQLI}''\<rparr> =
     (Inr [(''correct'', VBool True), (''points'', VInt 100)], Some one_challenge)"
proof -
  let ?p = "\<lparr>challenge_id = ''web-101'', username = ''alice'', flag = ''FLAG{BAS1C_SQLI}''\<rparr>"
  let ?ch = "(''_id'', VOid 7) # web_101"
  have nf: "\<not> fails_next write_fails"
    by (simp add: fails_next_def write_fails_def)
  have d: "List.find (\<lambda>d. map_of d ''challenge_id'' = Some (VStr (challenge_id ?p)))
           (documents write_fails ''ctfchallenge'') = Some ?ch"
    by (simp add: documents_def write_fails_def one_challenge_def empty_conn_def with_id_def web_101_def)
  have s: "strip ''FLAG{BAS1C_SQLI}'' = ''FLAG{BAS1C_SQLI}''"
    by (simp add: strip_def is_space_def)
  have j: "judge ?ch (flag ?p) = Inr (True, 100)"
    by (simp add: judge_def s web_101_def get_default_def bind_exn_def)
  have f: "fails_next (advance write_fails)"
    by (simp add: fails_next_def write_fails_def)
  have a: "advance (advance write_fails) = one_challenge"
    by (simp add: advance_def write_fails_def one_challenge_def empty_conn_def)
  show ?thesis
    using submit_flag_write_failure [OF nf d j f] by (simp only: a)
qed

text \<open>
  Claim C10. Whenever \<^verbatim>\<open>submit_flag\<close> fails (with 503, with 404 or with any other
  error), no document is created: every collection, and the next identifier, are as
  before the call.
\<close>

theorem submit_flag_error_atomic:
  assumes "fst (submit_flag db p) = Inl e"
  shows "map_option colls (snd (submit_flag db p)) = map_option colls db \<and>
         map_option next_oid (snd (submit_flag db p)) = map_option next_oid db"
proof (cases db)
  case None
  then show ?thesis by (simp add: submit_flag_no_handle)
next
  case (Some c)
  show ?thesis
  proof (cases "fails_next c")
    case True
    with Some show ?thesis by (simp add: submit_flag_lookup_fails)
  next
    case nf: False
    show ?thesis
    proof (cases "List.find (\<lambda>d. map_of d ''challenge_id'' = Some (VStr (challenge_id p)))
         (documents c ''ctfchallenge'')")
      case None
      with Some nf show ?thesis by (simp add: submit_flag_unknown)
    next
      case (Some ch)
      show ?thesis
      proof (cases "judge ch (flag p)")
        case (Inl e')
        with \<open>db = Some c\<close> nf Some show ?thesis by (simp add: submit_flag_judge_raises)
      next
        case (Inr r)
        with assms \<open>db = Some c\<close> nf Some show ?thesis
          by (cases r) (simp add: submit_flag_found)
      qed
    qed
  qed
qed

theorem submit_flag_error_atomic_witness:
  "map_option colls (snd (submit_flag (Some one_challenge)
      \<lparr>challenge_id = ''no-such-id'', username = ''alice'', flag = ''x''\<rparr>))
     = Some (colls one_challenge) \<and>
   map_option colls (snd (submit_flag None
      \<lparr>challenge_id = ''web-101'', username = ''alice'', flag = ''x''\<rparr>)) = None"
proof -
  have nf: "\<not> fails_next one_challenge"
    by (simp add: fails_next_def one_challenge_def empty_conn_def)
  have e1: "fst (submit_flag (Some one_challenge)
      \<lparr>challenge_id = ''no-such-id'', username = ''alice'', flag = ''x''\<rparr>)
      = Inl (HTTPException 404 ''Challenge not found'')"
    by (simp add: submit_flag_unknown nf documents_one_challenge web_101_def)
  have e2: "fst (submit_flag None
      \<lparr>challenge_id = ''web-101'', username = ''alice'', flag = ''x''\<rparr>)
      = Inl (HTTPException 503 ''Database unavailable'')"
    by (simp add: submit_flag_no_handle)
  show ?thesis
    using submit_flag_error_atomic [OF e1] submit_flag_error_atomic [OF e2] by simp
qed

subsection \<open>The leaderboard\<close>

lemma bump_tabulated:
  "distinct gs \<Longrightarrow>
   bump g n (map (\<lambda>h. (h, F h)) gs) =
     (if g \<in> set gs then map (\<lambda>h. (h, if h = g then F h + n else F h)) gs
      else map (\<lambda>h. (h, F h)) gs @ [(g, n)])"
  by (induction gs) auto

lemma first_keys_snoc:
  "first_keys (kvs @ [(g, n)]) =
     (if g \<in> set (first_keys kvs) then first_keys kvs else first_keys kvs @ [g])"
  by (simp add: first_keys_def)

lemma set_first_keys [simp]: "set (first_keys kvs) = fst ` set kvs"
  by (simp add: first_keys_def)

lemma distinct_first_keys [simp]: "distinct (first_keys kvs)"
  by (simp add: first_keys_def)

lemma key_sum_snoc: "key_sum (kvs @ [(g, n)]) h = (if h = g then key_sum kvs h + n else key_sum kvs h)"
  by (simp add: key_sum_def)

lemma key_sum_absent: "g \<notin> fst ` set kvs \<Longrightarrow> key_sum kvs g = 0"
proof -
  assume "g \<notin> fst ` set kvs"
  then have "filter (\<lambda>p. fst p = g) kvs = []"
    by (auto simp: filter_empty_conv)
  then show ?thesis by (simp add: key_sum_def)
qed

lemma foldl_bump:
  "foldl (\<lambda>acc p. bump (fst p) (snd p) acc) [] kvs = map (\<lambda>g. (g, key_sum kvs g)) (first_keys kvs)"
proof (induction kvs rule: rev_induct)
  case Nil
  then show ?case by (simp add: first_keys_def)
next
  case (snoc p kvs)
  obtain g n where p: "p = (g, n)" by (cases p)
  show ?case
  proof (cases "g \<in> fst ` set kvs")
    case True
    then show ?thesis
      using snoc by (simp add: p bump_tabulated first_keys_snoc key_sum_snoc)
  next
    case False
    then have "map (\<lambda>h. (h, key_sum (kvs @ [(g, n)]) h)) (first_keys kvs) =
               map (\<lambda>h. (h, key_sum kvs h)) (first_keys kvs)"
      by (auto simp: key_sum_snoc)
    with False show ?thesis
      using snoc by (simp add: p bump_tabulated first_keys_snoc key_sum_absent key_sum_snoc)
  qed
qed

lemma group_sum_tabulated:
  "group_sum k f ds =
     (let kvs = map (\<lambda>d. (get_default d k VNone, num_field d f)) ds
      in map (\<lambda>g. (g, key_sum kvs g)) (first_keys kvs))"
proof -
  have "group_sum k f ds =
    foldl (\<lambda>acc p. bump (fst p) (snd p) acc) [] (map (\<lambda>d. (get_default d k VNone, num_field d f)) ds)"
    by (simp add: group_sum_def foldl_map)
  then show ?thesis by (simp add: foldl_bump Let_def)
qed

lemma spec_user_get: "spec_user d = get_default d ''username'' VNone"
  by (simp add: spec_user_def get_default_def)

lemma key_sum_spec:
  "key_sum (map (\<lambda>d. (get_default d ''username'' VNone, num_field d ''points_awarded'')) (spec_correct ds)) u
     = spec_total ds u"
  by (simp add: key_sum_def spec_total_def filter_map comp_def spec_user_get)

lemma first_keys_spec:
  "first_keys (map (\<lambda>d. (get_default d ''username'' VNone, num_field d ''points_awarded'')) (spec_correct ds))
     = spec_users ds"
proof -
  have "spec_user = (\<lambda>d. get_default d ''username'' VNone)"
    by (rule ext) (simp add: spec_user_get)
  then show ?thesis
    by (simp add: first_keys_def spec_users_def comp_def)
qed

lemma group_sum_spec:
  "group_sum ''username'' ''points_awarded'' (spec_correct ds) =
     map (\<lambda>u. (u, spec_total ds u)) (spec_users ds)"
  by (simp add: group_sum_tabulated Let_def key_sum_spec first_keys_spec)

lemma insort_key_map:
  "insort_key f (g x) (map g xs) = map g (insort_key (\<lambda>y. f (g y)) x xs)"
  by (induction xs) auto

lemma sort_key_map: "sort_key f (map g xs) = map g (sort_key (\<lambda>y. f (g y)) xs)"
  by (induction xs) (simp_all add: insort_key_map)

lemma traverse_row_group_docs:
  "traverse row (map group_doc ps) = Inr (map (\<lambda>(u, t). [(''user'', u), (''points'', VInt t)]) ps)"
  by (induction ps) (auto simp: row_def group_doc_def getitem_def bind_exn_def)

lemma totals_spec:
  "totals c = map group_doc (map (\<lambda>u. (u, spec_total (documents c ''ctfsubmission'') u))
                 (spec_users (documents c ''ctfsubmission'')))"
proof -
  have "totals c = map (\<lambda>(g, t). [(''_id'', g), (''points'', VInt t)])
      (group_sum ''username'' ''points_awarded'' (spec_correct (documents c ''ctfsubmission'')))"
    by (simp add: totals_def pipeline_def run_pipeline_def spec_correct_def)
  also have "(\<lambda>(g, t). [(''_id'', g), (''points'', VInt t)]) = group_doc"
    by (rule ext) (simp add: group_doc_def split: prod.splits)
  finally show ?thesis by (simp add: group_sum_spec)
qed

lemma sort_group_docs:
  "sort_key (\<lambda>d. - num_field d ''points'') (map group_doc ps) =
   map group_doc (sort_key (\<lambda>(u, t). - t) ps)"
proof -
  have "(\<lambda>y. - num_field (group_doc y) ''points'') = (\<lambda>(u, t). - t)"
    by (rule ext) (simp add: group_doc_def num_field_def split: prod.splits)
  then show ?thesis
    by (simp add: sort_key_map)
qed

lemma run_pipeline_spec:
  "run_pipeline pipeline ds =
     map group_doc (take 20 (sort_key (\<lambda>(u, t). - t) (map (\<lambda>u. (u, spec_total ds u)) (spec_users ds))))"
proof -
  have g: "(\<lambda>(g, t). [(''_id'', g), (''points'', VInt t)]) = group_doc"
    by (rule ext) (simp add: group_doc_def split: prod.splits)
  have "run_pipeline pipeline ds =
    take 20 (sort_key (\<lambda>d. - num_field d ''points'')
      (map group_doc (group_sum ''username'' ''points_awarded'' (spec_correct ds))))"
    by (simp add: pipeline_def run_pipeline_def spec_correct_def g)
  also have "\<dots> = take 20 (map group_doc (sort_key (\<lambda>(u, t). - t)
      (group_sum ''username'' ''points_awarded'' (spec_correct ds))))"
    by (simp only: sort_group_docs)
  finally show ?thesis
    by (simp only: group_sum_spec take_map)
qed

lemma leaderboard_ok:
  assumes "handle_truth c = Inr True" and "\<not> fails_next c"
  shows "leaderboard (Some c) = (Inr (spec_leaderboard (documents c ''ctfsubmission'')), Some (advance c))"
  using assms
  by (simp add: leaderboard_def leaderboard_body_def aggregate_def attempt_def
      run_pipeline_spec traverse_row_group_docs spec_leaderboard_def)

lemma leaderboard_no_handle: "leaderboard None = (Inr [], None)"
  by (simp add: leaderboard_def leaderboard_body_def)

lemma leaderboard_truth_raises: "handle_truth c = Inl e \<Longrightarrow> leaderboard (Some c) = (Inr [], Some c)"
  by (simp add: leaderboard_def leaderboard_body_def)

lemma leaderboard_falsy: "handle_truth c = Inr False \<Longrightarrow> leaderboard (Some c) = (Inr [], Some c)"
  by (simp add: leaderboard_def leaderboard_body_def)

lemma leaderboard_aggregate_fails:
  "handle_truth c = Inr True \<Longrightarrow> fails_next c \<Longrightarrow> leaderboard (Some c) = (Inr [], Some (advance c))"
  by (simp add: leaderboard_def leaderboard_body_def aggregate_def attempt_def)

lemma leaderboard_cases:
  "fst (leaderboard db) = Inr [] \<or>
   (\<exists>c. db = Some c \<and> handle_truth c = Inr True \<and> \<not> fails_next c)"
proof (cases db)
  case None
  then show ?thesis by (simp add: leaderboard_no_handle)
next
  case (Some c)
  show ?thesis
  proof (cases "handle_truth c")
    case (Inl e)
    with Some show ?thesis by (simp add: leaderboard_truth_raises)
  next
    case (Inr b)
    show ?thesis
    proof (cases b)
      case False
      with Some Inr show ?thesis by (simp add: leaderboard_falsy)
    next
      case True
      with Some Inr show ?thesis
        by (cases "fails_next c") (simp_all add: leaderboard_aggregate_fails)
    qed
  qed
qed

lemma spec_leaderboard_length: "length (spec_leaderboard ds) \<le> 20"
  by (simp add: spec_leaderboard_def)

lemma spec_leaderboard_sorted:
  "sorted_wrt (\<lambda>a b. a \<ge> b) (map (\<lambda>r. num_field r ''points'') (spec_leaderboard ds))"
proof -
  let ?ps = "sort_key (\<lambda>(u, t). - t) (map (\<lambda>u. (u, spec_total ds u)) (spec_users ds))"
  have "sorted (map (\<lambda>(u, t). - t) ?ps)"
    by (rule sorted_sort_key)
  then have "sorted (take 20 (map (\<lambda>(u, t). - t) ?ps))"
    by (rule sorted_wrt_take)
  then have "sorted (map (\<lambda>(u, t). - t) (take 20 ?ps))"
    by (simp add: take_map)
  then have "sorted_wrt (\<lambda>a b. a \<ge> b) (map snd (take 20 ?ps))"
    by (simp add: sorted_wrt_map case_prod_unfold)
  moreover have "map (\<lambda>r. num_field r ''points'') (spec_leaderboard ds) = map snd (take 20 ?ps)"
    by (simp add: spec_leaderboard_def num_field_def comp_def case_prod_unfold)
  ultimately show ?thesis by simp
qed

text \<open>
  With a handle that tests true and an aggregation that completes,
  \<^verbatim>\<open>leaderboard\<close> returns exactly the specification's leaderboard of the stored
  submissions; and in every case it returns a list of at most 20 rows whose points
  are sorted non-increasing.
\<close>

lemma leaderboard_refines_spec:
  "(handle_truth c = Inr True \<and> \<not> fails_next c \<longrightarrow>
      fst (leaderboard (Some c)) = Inr (spec_leaderboard (documents c ''ctfsubmission''))) \<and>
   (\<exists>rows. fst (leaderboard db) = Inr rows \<and> length rows \<le> 20 \<and>
      sorted_wrt (\<lambda>a b. a \<ge> b) (map (\<lambda>r. num_field r ''points'') rows))"
proof (intro conjI impI)
  assume "handle_truth c = Inr True \<and> \<not> fails_next c"
  then show "fst (leaderboard (Some c)) = Inr (spec_leaderboard (documents c ''ctfsubmission''))"
    by (simp add: leaderboard_ok)
next
  from leaderboard_cases [of db]
  show "\<exists>rows. fst (leaderboard db) = Inr rows \<and> length rows \<le> 20 \<and>
      sorted_wrt (\<lambda>a b. a \<ge> b) (map (\<lambda>r. num_field r ''points'') rows)"
  proof
    assume "fst (leaderboard db) = Inr []"
    then show ?thesis by simp
  next
    assume "\<exists>c. db = Some c \<and> handle_truth c = Inr True \<and> \<not> fails_next c"
    then obtain c' where "db = Some c'" "handle_truth c' = Inr True" "\<not> fails_next c'"
      by blast
    then have "fst (leaderboard db) = Inr (spec_leaderboard (documents c' ''ctfsubmission''))"
      by (simp add: leaderboard_ok)
    then show ?thesis
      using spec_leaderboard_length spec_leaderboard_sorted by blast
  qed
qed

lemma leaderboard_refines_spec_example:
  "fst (leaderboard (Some board_conn)) =
     Inr [[(''user'', VStr ''bob''), (''points'', VInt 300)],
          [(''user'', VStr ''alice''), (''points'', VInt 200)]]"
proof -
  have t: "handle_truth board_conn = Inr True" and nf: "\<not> fails_next board_conn"
    by (simp_all add: board_conn_def empty_conn_def fails_next_def)
  have "spec_leaderboard (documents board_conn ''ctfsubmission'') =
     [[(''user'', VStr ''bob''), (''points'', VInt 300)],
      [(''user'', VStr ''alice''), (''points'', VInt 200)]]"
    by (simp add: spec_leaderboard_def spec_users_def spec_total_def spec_correct_def spec_user_def
        documents_def with_id_def board_conn_def empty_conn_def sub_def submission_doc_def
        recorded_username_def strip_def is_space_def num_field_def)
  then show ?thesis
    using leaderboard_refines_spec [of board_conn None] t nf by simp
qed

lemma find_group_doc:
  "List.find (\<lambda>r. map_of r ''_id'' = Some u) (map (\<lambda>v. group_doc (v, F v)) us) =
     (if u \<in> set us then Some (group_doc (u, F u)) else None)"
  by (induction us) (auto simp: group_doc_def)

lemma spec_total_absent: "u \<notin> set (spec_users ds) \<Longrightarrow> spec_total ds u = 0"
proof -
  assume "u \<notin> set (spec_users ds)"
  then have "filter (\<lambda>d. spec_user d = u) (spec_correct ds) = []"
    by (auto simp: spec_users_def filter_empty_conv)
  then show ?thesis by (simp add: spec_total_def)
qed

lemma user_total_spec: "user_total c u = spec_total (documents c ''ctfsubmission'') u"
proof -
  have "totals c = map (\<lambda>v. group_doc (v, spec_total (documents c ''ctfsubmission'') v))
                 (spec_users (documents c ''ctfsubmission''))"
    by (simp add: totals_spec comp_def)
  then have "user_total c u =
      (case (if u \<in> set (spec_users (documents c ''ctfsubmission''))
             then Some (group_doc (u, spec_total (documents c ''ctfsubmission'') u)) else None) of
         None \<Rightarrow> 0 | Some r \<Rightarrow> num_field r ''points'')"
    by (simp only: user_total_def find_group_doc)
  then show ?thesis
    by (simp add: spec_total_absent group_doc_def num_field_def)
qed

lemma map_of_with_id: "k \<noteq> ''_id'' \<Longrightarrow> map_of (with_id (i, d)) k = map_of d k"
  by (simp add: with_id_def AList.delete_conv')

lemma spec_total_snoc:
  "spec_total (ds @ [x]) u =
     spec_total ds u +
       (if map_of x ''correct'' = Some (VBool True) \<and> spec_user x = u
        then num_field x ''points_awarded'' else 0)"
  by (simp add: spec_total_def spec_correct_def)

lemma user_total_insert:
  assumes "colls c' ''ctfsubmission'' = colls c ''ctfsubmission'' @ [(i, d)]"
  shows "user_total c' u =
     user_total c u +
       (if map_of d ''correct'' = Some (VBool True) \<and> spec_user d = u
        then num_field d ''points_awarded'' else 0)"
proof -
  have "documents c' ''ctfsubmission'' = documents c ''ctfsubmission'' @ [with_id (i, d)]"
    using assms by (simp add: documents_def)
  then show ?thesis
    by (simp add: user_total_spec spec_total_snoc map_of_with_id spec_user_def num_field_def)
qed

text \<open>
  The totals that the match and group stages of the pipeline compute: adding one
  submission with \<open>correct = true\<close>, username \<^verbatim>\<open>alice\<close> and \<open>points_awarded = 100\<close>
  raises the total of alice by exactly 100 and leaves every other total as it was.
\<close>

lemma leaderboard_total_monotonic:
  assumes "colls c' ''ctfsubmission'' = colls c ''ctfsubmission'' @ [(i, d)]"
    and "map_of d ''correct'' = Some (VBool True)"
    and "map_of d ''username'' = Some (VStr ''alice'')"
    and "map_of d ''points_awarded'' = Some (VInt 100)"
  shows "user_total c' (VStr ''alice'') = user_total c (VStr ''alice'') + 100 \<and>
         (\<forall>u. u \<noteq> VStr ''alice'' \<longrightarrow> user_total c' u = user_total c u)"
  using assms(2-4)
  by (auto simp: user_total_insert [OF assms(1)] spec_user_def num_field_def)

lemma leaderboard_total_monotonic_example:
  "user_total board_conn (VStr ''alice'') = 200 \<and>
   user_total board_conn' (VStr ''alice'') = 300 \<and>
   user_total board_conn' (VStr ''bob'') = user_total board_conn (VStr ''bob'')"
proof -
  have a: "colls board_conn' ''ctfsubmission'' =
           colls board_conn ''ctfsubmission'' @ [(5, sub ''web-101'' ''alice'' True 100)]"
    by (simp add: board_conn'_def)
  have s: "strip ''alice'' = ''alice''"
    by (simp add: strip_def is_space_def)
  have d: "map_of (sub ''web-101'' ''alice'' True 100) ''correct'' = Some (VBool True)"
    "map_of (sub ''web-101'' ''alice'' True 100) ''username'' = Some (VStr ''alice'')"
    "map_of (sub ''web-101'' ''alice'' True 100) ''points_awarded'' = Some (VInt 100)"
    by (simp_all add: sub_def submission_doc_def recorded_username_def s)
  have t: "user_total board_conn (VStr ''alice'') = 200"
    by (simp add: user_total_def totals_def pipeline_def run_pipeline_def group_sum_def
        documents_def with_id_def board_conn_def empty_conn_def sub_def submission_doc_def
        recorded_username_def strip_def is_space_def num_field_def get_default_def)
  show ?thesis
    using leaderboard_total_monotonic [OF a d] t by simp
qed

subsection \<open>Reads fail open\<close>

lemma list_challenges_fail:
  "fst (get_documents db ''ctfchallenge'') = Inl e \<Longrightarrow> fst (list_challenges db) = Inr []"
  by (cases "get_documents db ''ctfchallenge''") (simp add: list_challenges_def)

lemma list_challenges_total: "\<exists>rows. fst (list_challenges db) = Inr rows"
  by (cases "get_documents db ''ctfchallenge''") (auto simp: list_challenges_def split: sum.splits)

text \<open>
  Claim C5. When fetching the challenges raises, \<^verbatim>\<open>list_challenges\<close> returns the
  empty list; when there is no handle or the store fails at the next operation, both
  \<^verbatim>\<open>list_challenges\<close> and \<^verbatim>\<open>leaderboard\<close> return the empty list; and neither ever
  fails.
\<close>

theorem reads_fail_open:
  "(fst (get_documents db ''ctfchallenge'') = Inl e \<longrightarrow> fst (list_challenges db) = Inr []) \<and>
   (db = None \<or> (\<exists>c. db = Some c \<and> fails_next c) \<longrightarrow>
      fst (list_challenges db) = Inr [] \<and> fst (leaderboard db) = Inr []) \<and>
   (\<exists>rows. fst (list_challenges db) = Inr rows) \<and>
   (\<exists>rows. fst (leaderboard db) = Inr rows)"
proof (intro conjI impI)
  assume "fst (get_documents db ''ctfchallenge'') = Inl e"
  then show "fst (list_challenges db) = Inr []" by (rule list_challenges_fail)
next
  assume "db = None \<or> (\<exists>c. db = Some c \<and> fails_next c)"
  then have "fst (get_documents db ''ctfchallenge'') = Inl StoreFailure"
    by (auto simp: get_documents_def find_all_def attempt_def)
  then show "fst (list_challenges db) = Inr []" by (rule list_challenges_fail)
next
  assume "db = None \<or> (\<exists>c. db = Some c \<and> fails_next c)"
  with leaderboard_cases [of db] show "fst (leaderboard db) = Inr []" by auto
next
  show "\<exists>rows. fst (list_challenges db) = Inr rows" by (rule list_challenges_total)
next
  from leaderboard_cases [of db] show "\<exists>rows. fst (leaderboard db) = Inr rows"
    by (auto simp: leaderboard_ok)
qed

theorem reads_fail_open_witness:
  "fst (list_challenges None) = Inr [] \<and> fst (leaderboard None) = Inr [] \<and>
   fst (list_challenges (Some offline)) = Inr [] \<and> fst (leaderboard (Some offline)) = Inr []"
proof -
  have "fails_next offline"
    by (simp add: offline_def fails_next_def)
  then show ?thesis
    using reads_fail_open [of None StoreFailure] reads_fail_open [of "Some offline" StoreFailure]
    by simp
qed

subsection \<open>Seeding\<close>

lemma samples_ok: "samples = Inr sample_docs"
  by (simp add: sample_docs_def samples_def bind_exn_def diff_points_def DIFF_POINTS_def
      Ctfchallenge_def DIFFICULTY_def)

lemma sample_docs_keys:
  "map (\<lambda>d. (map_of d ''challenge_id'', map_of d ''points'')) sample_docs =
     [(Some (VStr ''web-101''), Some (VInt 100)),
      (Some (VStr ''crypto-201''), Some (VInt 200)),
      (Some (VStr ''pwn-301''), Some (VInt 300))]"
  by (simp add: sample_docs_def samples_def bind_exn_def diff_points_def DIFF_POINTS_def
      Ctfchallenge_def DIFFICULTY_def)

lemma length_sample_docs: "length sample_docs = 3"
  using arg_cong [OF sample_docs_keys, of length] by simp

lemma distinct_sample_ids: "distinct (map (\<lambda>d. map_of d ''challenge_id'') sample_docs)"
proof -
  have "map fst (map (\<lambda>d. (map_of d ''challenge_id'', map_of d ''points'')) sample_docs) =
        map (\<lambda>d. map_of d ''challenge_id'') sample_docs"
    by (simp add: comp_def)
  then have "map (\<lambda>d. map_of d ''challenge_id'') sample_docs =
      [Some (VStr ''web-101''), Some (VStr ''crypto-201''), Some (VStr ''pwn-301'')]"
    by (simp only: sample_docs_keys list.map fst_conv)
  then show ?thesis
    by simp
qed

lemma count_documents_fail:
  "fails_next c \<Longrightarrow> count_documents c name = (Inl StoreFailure, advance c)"
  by (simp add: count_documents_def attempt_def)

lemma count_documents_ok:
  "\<not> fails_next c \<Longrightarrow> count_documents c name = (Inr (length (colls c name)), advance c)"
  by (simp add: count_documents_def attempt_def)

lemma seed_insert_cases:
  "seed_insert (Some c) s = Some (advance c) \<or>
   seed_insert (Some c) s =
     Some (inserted (advance c) ''ctfchallenge'' s)"
  by (cases "fails_next c") (simp_all add: seed_insert_def create_document_def insert_one_fail insert_one_ok)

lemma seed_insert_ok:
  "\<not> fails_next c \<Longrightarrow>
   seed_insert (Some c) s =
     Some (inserted (advance c) ''ctfchallenge'' s)"
  by (simp add: seed_insert_def create_document_def insert_one_ok)

lemma seed_loop:
  "\<exists>c' ys. foldl seed_insert (Some c) ss = Some c' \<and>
     colls c' = (colls c)(''ctfchallenge'' := colls c ''ctfchallenge'' @ ys) \<and>
     subseq (map snd ys) ss"
proof (induction ss arbitrary: c)
  case Nil
  have "colls c = (colls c)(''ctfchallenge'' := colls c ''ctfchallenge'' @ [])" by simp
  then show ?case by (metis foldl_Nil list.simps(8) subseq_order.order_refl)
next
  case (Cons s ss)
  from seed_insert_cases [of c s] show ?case
  proof
    assume a: "seed_insert (Some c) s = Some (advance c)"
    from Cons [of "advance c"] obtain c' ys where
      "foldl seed_insert (Some (advance c)) ss = Some c'"
      "colls c' = (colls (advance c))(''ctfchallenge'' := colls (advance c) ''ctfchallenge'' @ ys)"
      "subseq (map snd ys) ss"
      by blast
    with a show ?thesis
      by (intro exI [of _ c'] exI [of _ ys]) (simp add: list_emb_Cons)
  next
    let ?c1 = "inserted (advance c) ''ctfchallenge'' s"
    assume a: "seed_insert (Some c) s = Some ?c1"
    from Cons [of ?c1] obtain c' ys where
      "foldl seed_insert (Some ?c1) ss = Some c'"
      "colls c' = (colls ?c1)(''ctfchallenge'' := colls ?c1 ''ctfchallenge'' @ ys)"
      "subseq (map snd ys) ss"
      by blast
    with a show ?thesis
      by (intro exI [of _ c'] exI [of _ "(next_oid c, s) # ys"]) simp
  qed
qed

lemma seed_challenges_never_raises: "fst (seed_challenges db) = Inr ()"
  by (cases "seed_body db") (auto simp: seed_challenges_def split: sum.splits)

lemma seed_challenges_no_handle: "seed_challenges None = (Inr (), None)"
  by (simp add: seed_challenges_def seed_body_def)

lemma seed_challenges_nonempty:
  "colls c ''ctfchallenge'' \<noteq> [] \<Longrightarrow> seed_challenges (Some c) = (Inr (), Some (advance c))"
  by (cases "fails_next c")
     (simp_all add: seed_challenges_def seed_body_def count_documents_fail count_documents_ok)

lemma seed_challenges_count_fails:
  "fails_next c \<Longrightarrow> seed_challenges (Some c) = (Inr (), Some (advance c))"
  by (simp add: seed_challenges_def seed_body_def count_documents_fail)

lemma seed_challenges_empty:
  "colls c ''ctfchallenge'' = [] \<Longrightarrow> \<not> fails_next c \<Longrightarrow>
   seed_challenges (Some c) = (Inr (), foldl seed_insert (Some (advance c)) sample_docs)"
  by (simp add: seed_challenges_def seed_body_def count_documents_ok samples_ok)

lemma seed_challenges_effect:
  "\<exists>c' ys. snd (seed_challenges (Some c)) = Some c' \<and>
     colls c' = (colls c)(''ctfchallenge'' := colls c ''ctfchallenge'' @ ys) \<and>
     (colls c ''ctfchallenge'' \<noteq> [] \<longrightarrow> ys = []) \<and>
     subseq (map snd ys) sample_docs"
proof (cases "colls c ''ctfchallenge'' = [] \<and> \<not> fails_next c")
  case True
  from seed_loop [of "advance c" sample_docs] obtain c' ys where
    "foldl seed_insert (Some (advance c)) sample_docs = Some c'"
    "colls c' = (colls (advance c))(''ctfchallenge'' := colls (advance c) ''ctfchallenge'' @ ys)"
    "subseq (map snd ys) sample_docs"
    by blast
  with True show ?thesis
    by (intro exI [of _ c'] exI [of _ ys]) (simp add: seed_challenges_empty)
next
  case False
  then have "seed_challenges (Some c) = (Inr (), Some (advance c))"
    using seed_challenges_nonempty seed_challenges_count_fails by blast
  then show ?thesis
    by (intro exI [of _ "advance c"] exI [of _ "[]"]) simp
qed

lemma subseq_distinct: "subseq xs ys \<Longrightarrow> distinct ys \<Longrightarrow> distinct xs"
proof (induction rule: list_emb.induct)
  case (list_emb_Nil ys)
  then show ?case by simp
next
  case (list_emb_Cons xs ys y)
  then show ?case by simp
next
  case (list_emb_Cons2 x y xs ys)
  then have "x \<notin> set xs"
    using subseq_order.dual_order.trans [of xs ys "[x]"] by (auto dest: list_emb_set)
  with list_emb_Cons2 show ?case by simp
qed

lemma no_fault_step:
  "True \<notin> set (take (Suc n) (faults c)) \<Longrightarrow>
   \<not> fails_next c \<and> True \<notin> set (take n (tl (faults c)))"
  by (cases "faults c") (auto simp: fails_next_def)

lemma seed_loop_ok:
  "True \<notin> set (take (length ss) (faults c)) \<Longrightarrow>
   \<exists>c'. foldl seed_insert (Some c) ss = Some c' \<and>
     colls c' = (colls c)(''ctfchallenge'' := colls c' ''ctfchallenge'') \<and>
     map snd (colls c' ''ctfchallenge'') = map snd (colls c ''ctfchallenge'') @ ss"
proof (induction ss arbitrary: c)
  case Nil
  show ?case by (intro exI [of _ c]) simp
next
  case (Cons s ss)
  let ?c1 = "inserted (advance c) ''ctfchallenge'' s"
  from Cons.prems have nf: "\<not> fails_next c" and rest: "True \<notin> set (take (length ss) (faults ?c1))"
    using no_fault_step [of "length ss" c] by simp_all
  from Cons.IH [OF rest] obtain c' where
    "foldl seed_insert (Some ?c1) ss = Some c'"
    "colls c' = (colls ?c1)(''ctfchallenge'' := colls c' ''ctfchallenge'')"
    "map snd (colls c' ''ctfchallenge'') = map snd (colls ?c1 ''ctfchallenge'') @ ss"
    by blast
  with nf show ?case
    by (intro exI [of _ c']) (simp add: seed_insert_ok)
qed

lemma seed_challenges_fresh:
  assumes "colls c ''ctfchallenge'' = []" and "True \<notin> set (take 4 (faults c))"
  shows "\<exists>c'. snd (seed_challenges (Some c)) = Some c' \<and>
     colls c' = (colls c)(''ctfchallenge'' := colls c' ''ctfchallenge'') \<and>
     map snd (colls c' ''ctfchallenge'') = sample_docs"
proof -
  from assms(2) have nf: "\<not> fails_next c" and rest: "True \<notin> set (take (length sample_docs) (faults (advance c)))"
    using no_fault_step [of 3 c] by (simp_all add: length_sample_docs)
  from seed_loop_ok [OF rest] obtain c' where
    "foldl seed_insert (Some (advance c)) sample_docs = Some c'"
    "colls c' = (colls (advance c))(''ctfchallenge'' := colls c' ''ctfchallenge'')"
    "map snd (colls c' ''ctfchallenge'') = map snd (colls (advance c) ''ctfchallenge'') @ sample_docs"
    by blast
  with assms(1) nf show ?thesis
    by (intro exI [of _ c']) (simp add: seed_challenges_empty)
qed

lemma seed_keeps_distinct:
  assumes "distinct (challenge_ids c)"
  shows "\<exists>c'. snd (seed_challenges (Some c)) = Some c' \<and> distinct (challenge_ids c')"
proof -
  from seed_challenges_effect [of c] obtain c' ys where
    s: "snd (seed_challenges (Some c)) = Some c'"
    and c': "colls c' = (colls c)(''ctfchallenge'' := colls c ''ctfchallenge'' @ ys)"
    and e: "colls c ''ctfchallenge'' \<noteq> [] \<longrightarrow> ys = []"
    and q: "subseq (map snd ys) sample_docs"
    by blast
  have "distinct (challenge_ids c')"
  proof (cases "colls c ''ctfchallenge'' = []")
    case True
    have "subseq (map (\<lambda>d. map_of d ''challenge_id'') (map snd ys))
                 (map (\<lambda>d. map_of d ''challenge_id'') sample_docs)"
      using q by (rule subseq_map)
    then have "distinct (map (\<lambda>d. map_of d ''challenge_id'') (map snd ys))"
      using distinct_sample_ids by (rule subseq_distinct)
    with True c' show ?thesis
      by (simp add: challenge_ids_def comp_def)
  next
    case False
    with e c' assms show ?thesis
      by (simp add: challenge_ids_def)
  qed
  with s show ?thesis by blast
qed

text \<open>
  Claim C6. \<^verbatim>\<open>seed_challenges\<close> never raises, whatever the store does, and does
  nothing without a handle. On an empty challenge collection, with none of its four
  store operations failing, it inserts exactly the three sample challenges:
  \<^verbatim>\<open>web-101\<close>, \<^verbatim>\<open>crypto-201\<close> and \<^verbatim>\<open>pwn-301\<close> with 100, 200 and 300 points.
  On a collection that is not empty it inserts nothing. Seeding twice, with any
  failures, never gives two challenges the same \<open>challenge_id\<close> when no two had
  one before.
\<close>

theorem seed_challenges_spec:
  "fst (seed_challenges db) = Inr () \<and>
   snd (seed_challenges None) = None \<and>
   (colls c ''ctfchallenge'' = [] \<and> True \<notin> set (take 4 (faults c)) \<longrightarrow>
      (\<exists>c'. snd (seed_challenges (Some c)) = Some c' \<and>
         samples = Inr (map snd (colls c' ''ctfchallenge'')) \<and>
         map (\<lambda>s. (map_of (snd s) ''challenge_id'', map_of (snd s) ''points''))
             (colls c' ''ctfchallenge'') =
           [(Some (VStr ''web-101''), Some (VInt 100)),
            (Some (VStr ''crypto-201''), Some (VInt 200)),
            (Some (VStr ''pwn-301''), Some (VInt 300))])) \<and>
   (colls c ''ctfchallenge'' \<noteq> [] \<longrightarrow>
      (\<exists>c'. snd (seed_challenges (Some c)) = Some c' \<and> colls c' = colls c)) \<and>
   (distinct (challenge_ids c) \<longrightarrow>
      (\<exists>c''. snd (seed_challenges (snd (seed_challenges (Some c)))) = Some c'' \<and>
         distinct (challenge_ids c'')))"
proof (intro conjI impI)
  show "fst (seed_challenges db) = Inr ()"
    by (rule seed_challenges_never_raises)
next
  show "snd (seed_challenges None) = None"
    by (simp add: seed_challenges_no_handle)
next
  assume "colls c ''ctfchallenge'' = [] \<and> True \<notin> set (take 4 (faults c))"
  then obtain c' where s: "snd (seed_challenges (Some c)) = Some c'"
    and d: "map snd (colls c' ''ctfchallenge'') = sample_docs"
    using seed_challenges_fresh [of c] by blast
  have "map (\<lambda>s. (map_of (snd s) ''challenge_id'', map_of (snd s) ''points''))
             (colls c' ''ctfchallenge'') =
        map (\<lambda>d. (map_of d ''challenge_id'', map_of d ''points'')) (map snd (colls c' ''ctfchallenge''))"
    by (simp add: comp_def)
  with s d show "\<exists>c'. snd (seed_challenges (Some c)) = Some c' \<and>
         samples = Inr (map snd (colls c' ''ctfchallenge'')) \<and>
         map (\<lambda>s. (map_of (snd s) ''challenge_id'', map_of (snd s) ''points''))
             (colls c' ''ctfchallenge'') =
           [(Some (VStr ''web-101''), Some (VInt 100)),
            (Some (VStr ''crypto-201''), Some (VInt 200)),
            (Some (VStr ''pwn-301''), Some (VInt 300))]"
    by (intro exI [of _ c']) (simp only: samples_ok sample_docs_keys simp_thms)
next
  assume "colls c ''ctfchallenge'' \<noteq> []"
  then show "\<exists>c'. snd (seed_challenges (Some c)) = Some c' \<and> colls c' = colls c"
    by (simp add: seed_challenges_nonempty)
next
  assume "distinct (challenge_ids c)"
  then obtain c' where "snd (seed_challenges (Some c)) = Some c'" "distinct (challenge_ids c')"
    using seed_keeps_distinct by blast
  then show "\<exists>c''. snd (seed_challenges (snd (seed_challenges (Some c)))) = Some c'' \<and>
         distinct (challenge_ids c'')"
    using seed_keeps_distinct [of c'] by simp
qed

theorem seed_challenges_spec_witness:
  "fst (seed_challenges (Some offline)) = Inr () \<and>
   (\<exists>c'. snd (seed_challenges (Some empty_conn)) = Some c' \<and>
      samples = Inr (map snd (colls c' ''ctfchallenge'')) \<and>
      map (\<lambda>s. (map_of (snd s) ''challenge_id'', map_of (snd s) ''points''))
          (colls c' ''ctfchallenge'') =
        [(Some (VStr ''web-101''), Some (VInt 100)),
         (Some (VStr ''crypto-201''), Some (VInt 200)),
         (Some (VStr ''pwn-301''), Some (VInt 300))]) \<and>
   (\<exists>c'. snd (seed_challenges (Some one_challenge)) = Some c' \<and>
      colls c' = colls one_challenge) \<and>
   (\<exists>c''. snd (seed_challenges (snd (seed_challenges (Some empty_conn)))) = Some c'' \<and>
      distinct (challenge_ids c''))"
proof -
  have e: "colls empty_conn ''ctfchallenge'' = []" "True \<notin> set (take 4 (faults empty_conn))"
    "distinct (challenge_ids empty_conn)"
    by (simp_all add: empty_conn_def challenge_ids_def)
  have ne: "colls one_challenge ''ctfchallenge'' \<noteq> []"
    by (simp add: one_challenge_def empty_conn_def)
  note t = seed_challenges_spec [of "Some offline" empty_conn]
  note u = seed_challenges_spec [of None one_challenge]
  show ?thesis
  proof (intro conjI)
    show "fst (seed_challenges (Some offline)) = Inr ()"
      by (rule t [THEN conjunct1])
    show "\<exists>c'. snd (seed_challenges (Some empty_conn)) = Some c' \<and>
      samples = Inr (map snd (colls c' ''ctfchallenge'')) \<and>
      map (\<lambda>s. (map_of (snd s) ''challenge_id'', map_of (snd s) ''points''))
          (colls c' ''ctfchallenge'') =
        [(Some (VStr ''web-101''), Some (VInt 100)),
         (Some (VStr ''crypto-201''), Some (VInt 200)),
         (Some (VStr ''pwn-301''), Some (VInt 300))]"
      by (rule t [THEN conjunct2, THEN conjunct2, THEN conjunct1, THEN mp, OF conjI [OF e(1) e(2)]])
    show "\<exists>c'. snd (seed_challenges (Some one_challenge)) = Some c' \<and>
      colls c' = colls one_challenge"
      by (rule u [THEN conjunct2, THEN conjunct2, THEN conjunct2, THEN conjunct1, THEN mp, OF ne])
    show "\<exists>c''. snd (seed_challenges (snd (seed_challenges (Some empty_conn)))) = Some c'' \<and>
      distinct (challenge_ids c'')"
      by (rule t [THEN conjunct2, THEN conjunct2, THEN conjunct2, THEN conjunct2, THEN mp, OF e(3)])
  qed
qed

subsection \<open>What the responses show\<close>

lemma clean_with_id:
  "clean (with_id (n, d)) =
     AList.update ''id'' (VStr (hex24 n)) (AList.delete ''flag'' (AList.delete ''_id'' d))"
proof -
  have "AList.delete ''_id'' (AList.delete ''flag'' (AList.delete ''_id'' d)) =
        AList.delete ''flag'' (AList.delete ''_id'' d)"
    by (simp add: AList.delete_twist [of "''_id''" "''flag''"] AList.delete_idem)
  then show ?thesis
    by (simp add: clean_def with_id_def)
qed

lemma clean_hides_flag: "map_of (clean (with_id s)) ''flag'' = None"
  by (cases s) (simp add: clean_with_id AList.update_conv' AList.delete_conv')

lemma clean_gives_id: "map_of (clean (with_id s)) ''id'' = Some (VStr (hex24 (fst s)))"
  by (cases s) (simp add: clean_with_id AList.update_conv')

lemma clean_row:
  "map_of (clean (with_id s)) ''flag'' = None \<and>
   (\<exists>n. map_of (clean (with_id s)) ''id'' = Some (VStr (hex24 n)))"
  using clean_hides_flag [of s] clean_gives_id [of s] by blast

lemma clean_keeps_fields:
  "k \<noteq> ''flag'' \<Longrightarrow> k \<noteq> ''id'' \<Longrightarrow> k \<noteq> ''_id'' \<Longrightarrow>
   map_of (clean (with_id (n, d))) k = map_of d k"
  by (simp add: clean_with_id AList.update_conv' AList.delete_conv')

lemma list_challenges_ok:
  "\<not> fails_next c \<Longrightarrow>
   list_challenges (Some c) =
     (Inr (map (\<lambda>s. clean (with_id s)) (colls c ''ctfchallenge'')), Some (advance c))"
  by (simp add: list_challenges_def get_documents_def find_all_def attempt_def documents_def)

lemma list_challenges_rows:
  assumes "fst (list_challenges db) = Inr rows"
  shows "rows = [] \<or> (\<exists>c. db = Some c \<and> rows = map (\<lambda>s. clean (with_id s)) (colls c ''ctfchallenge''))"
proof (cases db)
  case None
  with assms show ?thesis
    by (simp add: list_challenges_def get_documents_def)
next
  case (Some c)
  show ?thesis
  proof (cases "fails_next c")
    case True
    with assms Some show ?thesis
      by (simp add: list_challenges_def get_documents_def find_all_def attempt_def)
  next
    case False
    with assms Some show ?thesis
      by (simp add: list_challenges_ok)
  qed
qed

lemma spec_leaderboard_keys: "list_all (\<lambda>r. map fst r = [''user'', ''points'']) (spec_leaderboard ds)"
  by (simp add: spec_leaderboard_def list_all_iff case_prod_unfold)

lemma submit_flag_response:
  assumes "fst (submit_flag db p) = Inr resp"
  shows "\<exists>b n. resp = [(''correct'', VBool b), (''points'', VInt n)]"
proof (cases db)
  case None
  with assms show ?thesis by (simp add: submit_flag_no_handle)
next
  case (Some c)
  show ?thesis
  proof (cases "fails_next c")
    case True
    with assms Some show ?thesis by (simp add: submit_flag_lookup_fails)
  next
    case nf: False
    show ?thesis
    proof (cases "List.find (\<lambda>d. map_of d ''challenge_id'' = Some (VStr (challenge_id p)))
         (documents c ''ctfchallenge'')")
      case None
      with assms Some nf show ?thesis by (simp add: submit_flag_unknown)
    next
      case (Some ch)
      show ?thesis
      proof (cases "judge ch (flag p)")
        case (Inl e)
        with assms \<open>db = Some c\<close> nf Some show ?thesis by (simp add: submit_flag_judge_raises)
      next
        case (Inr r)
        with assms \<open>db = Some c\<close> nf Some show ?thesis
          by (cases r) (auto simp: submit_flag_found)
      qed
    qed
  qed
qed

lemma hex24_7: "hex24 7 = ''000000000000000000000007''"
  by code_simp

lemma hide_flags_simps [simp]:
  "next_oid (hide_flags c) = next_oid c" "faults (hide_flags c) = faults c"
  "handle_truth (hide_flags c) = handle_truth c" "coll_names (hide_flags c) = coll_names c"
  "failure_message (hide_flags c) = failure_message c"
  "fails_next (hide_flags c) = fails_next c"
  "name \<noteq> ''ctfchallenge'' \<Longrightarrow> colls (hide_flags c) name = colls c name"
  "colls (hide_flags c) ''ctfchallenge'' =
     map (\<lambda>s. (fst s, AList.delete ''flag'' (snd s))) (colls c ''ctfchallenge'')"
  by (simp_all add: hide_flags_def fails_next_def)

lemma clean_ignores_flag: "clean (with_id (n, AList.delete ''flag'' d)) = clean (with_id (n, d))"
proof -
  have "AList.delete ''flag'' (AList.delete ''_id'' (AList.delete ''flag'' d)) =
        AList.delete ''flag'' (AList.delete ''_id'' d)"
    by (simp add: AList.delete_twist [of "''flag''" "''_id''"] AList.delete_idem)
  then show ?thesis
    by (simp add: clean_with_id)
qed

lemma list_challenges_hide:
  "fst (list_challenges (Some (hide_flags c))) = fst (list_challenges (Some c))"
proof (cases "fails_next c")
  case True
  then show ?thesis
    by (simp add: list_challenges_def get_documents_def find_all_def attempt_def)
next
  case False
  then show ?thesis
    by (simp add: list_challenges_ok comp_def clean_ignores_flag)
qed

lemma documents_hide_flags [simp]:
  "documents (hide_flags c) ''ctfsubmission'' = documents c ''ctfsubmission''"
  by (simp add: documents_def)

lemma leaderboard_hide:
  "fst (leaderboard (Some (hide_flags c))) = fst (leaderboard (Some c))"
proof (cases "handle_truth c")
  case (Inl e)
  then show ?thesis by (simp add: leaderboard_truth_raises)
next
  case (Inr b)
  show ?thesis
  proof (cases b)
    case False
    with Inr show ?thesis by (simp add: leaderboard_falsy)
  next
    case True
    with Inr show ?thesis
      by (cases "fails_next c") (simp_all add: leaderboard_aggregate_fails leaderboard_ok)
  qed
qed

lemma test_database_hide:
  "fst (test_database getenv (Some (hide_flags c))) = fst (test_database getenv (Some c))"
  by (simp add: test_database_def list_collection_names_def attempt_def Let_def)

lemma same_off_flags:
  assumes "map_option hide_flags db = map_option hide_flags db'"
    and "\<And>c. f (Some (hide_flags c)) = f (Some c)"
  shows "f db = f db'"
proof (cases db)
  case None
  with assms(1) show ?thesis by (cases db') simp_all
next
  case (Some c)
  with assms(1) obtain c' where "db' = Some c'" "hide_flags c = hide_flags c'"
    by (cases db') simp_all
  with Some assms(2) [of c] assms(2) [of c'] show ?thesis by simp
qed

lemma judge_error_kinds: "judge ch flg = Inl e \<Longrightarrow> e = TypeError \<or> e = ValueError"
proof -
  have "py_int v = Inl e \<Longrightarrow> e = TypeError \<or> e = ValueError" for v
    by (cases v) (auto split: option.splits)
  then show "judge ch flg = Inl e \<Longrightarrow> e = TypeError \<or> e = ValueError"
    by (auto simp: judge_def bind_exn_def Let_def split: sum.splits if_splits)
qed

lemma submit_flag_error_kinds:
  assumes "fst (submit_flag db p) = Inl e"
  shows "e \<in> {HTTPException 503 ''Database unavailable'', HTTPException 404 ''Challenge not found'',
             StoreFailure, TypeError, ValueError}"
proof (cases db)
  case None
  with assms show ?thesis by (simp add: submit_flag_no_handle)
next
  case (Some c)
  show ?thesis
  proof (cases "fails_next c")
    case True
    with assms Some show ?thesis by (simp add: submit_flag_lookup_fails)
  next
    case nf: False
    show ?thesis
    proof (cases "List.find (\<lambda>d. map_of d ''challenge_id'' = Some (VStr (challenge_id p)))
         (documents c ''ctfchallenge'')")
      case None
      with assms Some nf show ?thesis by (simp add: submit_flag_unknown)
    next
      case (Some ch)
      show ?thesis
      proof (cases "judge ch (flag p)")
        case (Inl e')
        with assms \<open>db = Some c\<close> nf Some judge_error_kinds [of ch "flag p" e'] show ?thesis
          by (auto simp: submit_flag_judge_raises)
      next
        case (Inr r)
        with assms \<open>db = Some c\<close> nf Some show ?thesis
          by (cases r) (simp add: submit_flag_found)
      qed
    qed
  qed
qed

text \<open>
  Claim C4. Every challenge object that \<^verbatim>\<open>list_challenges\<close> returns has no \<open>flag\<close>
  field and has an \<open>id\<close> field, the string form of the identifier the store
  assigned (in the order of the stored challenges). More generally, what the stored
  challenges hold in their flag fields reaches no response: for two stores that
  differ at most in these fields, \<^verbatim>\<open>list_challenges\<close>, \<^verbatim>\<open>leaderboard\<close> and
  \<^verbatim>\<open>test_database\<close> answer the same, \<^verbatim>\<open>read_root\<close> is a fixed message, a normal
  response of \<^verbatim>\<open>submit_flag\<close> holds a boolean and an integer and no string, and an
  error of \<^verbatim>\<open>submit_flag\<close> is one of five that carry nothing of the store.
\<close>

theorem flag_never_in_responses:
  assumes "map_option hide_flags db = map_option hide_flags db'"
  shows
  "(fst (list_challenges db) = Inr rows \<longrightarrow>
      list_all (\<lambda>d. map_of d ''flag'' = None \<and> (\<exists>n. map_of d ''id'' = Some (VStr (hex24 n)))) rows) \<and>
   (\<not> fails_next c \<longrightarrow>
      (\<exists>rs. fst (list_challenges (Some c)) = Inr rs \<and>
         map (\<lambda>d. map_of d ''id'') rs =
           map (\<lambda>s. Some (VStr (hex24 (fst s)))) (colls c ''ctfchallenge''))) \<and>
   fst (list_challenges db) = fst (list_challenges db') \<and>
   fst (leaderboard db) = fst (leaderboard db') \<and>
   fst (test_database getenv db) = fst (test_database getenv db') \<and>
   read_root = [(''message'', VStr ''CTF backend running'')] \<and>
   (fst (submit_flag db p) = Inr resp \<longrightarrow>
      (\<exists>b n. resp = [(''correct'', VBool b), (''points'', VInt n)])) \<and>
   (fst (submit_flag db p) = Inl e \<longrightarrow>
      e \<in> {HTTPException 503 ''Database unavailable'', HTTPException 404 ''Challenge not found'',
            StoreFailure, TypeError, ValueError})"
proof (intro conjI impI)
  assume "fst (list_challenges db) = Inr rows"
  from list_challenges_rows [OF this]
  show "list_all (\<lambda>d. map_of d ''flag'' = None \<and> (\<exists>n. map_of d ''id'' = Some (VStr (hex24 n)))) rows"
    by (auto simp: list_all_iff clean_row)
next
  assume "\<not> fails_next c"
  then show "\<exists>rs. fst (list_challenges (Some c)) = Inr rs \<and>
         map (\<lambda>d. map_of d ''id'') rs =
           map (\<lambda>s. Some (VStr (hex24 (fst s)))) (colls c ''ctfchallenge'')"
    by (simp add: list_challenges_ok comp_def clean_gives_id)
next
  show "fst (list_challenges db) = fst (list_challenges db')"
    using assms list_challenges_hide by (rule same_off_flags)
next
  show "fst (leaderboard db) = fst (leaderboard db')"
    using assms leaderboard_hide by (rule same_off_flags)
next
  show "fst (test_database getenv db) = fst (test_database getenv db')"
    using assms test_database_hide by (rule same_off_flags)
next
  show "read_root = [(''message'', VStr ''CTF backend running'')]"
    by (simp add: read_root_def)
next
  assume "fst (submit_flag db p) = Inr resp"
  then show "\<exists>b n. resp = [(''correct'', VBool b), (''points'', VInt n)]"
    by (rule submit_flag_response)
next
  assume "fst (submit_flag db p) = Inl e"
  then show "e \<in> {HTTPException 503 ''Database unavailable'', HTTPException 404 ''Challenge not found'',
            StoreFailure, TypeError, ValueError}"
    by (rule submit_flag_error_kinds)
qed

theorem flag_never_in_responses_witness:
  "map_option hide_flags (Some one_challenge) = map_option hide_flags (Some other_flag) \<and>
   colls one_challenge ''ctfchallenge'' \<noteq> colls other_flag ''ctfchallenge'' \<and>
   fst (list_challenges (Some one_challenge)) = fst (list_challenges (Some other_flag)) \<and>
   fst (leaderboard (Some one_challenge)) = fst (leaderboard (Some other_flag)) \<and>
   fst (test_database (\<lambda>name. None) (Some one_challenge)) =
     fst (test_database (\<lambda>name. None) (Some other_flag)) \<and>
   fst (list_challenges (Some one_challenge)) =
     Inr [[(''challenge_id'', VStr ''web-101''), (''title'', VStr ''Login Bypass Basics''),
           (''points'', VInt 100), (''id'', VStr ''000000000000000000000007'')]]"
proof -
  have h: "map_option hide_flags (Some one_challenge) = map_option hide_flags (Some other_flag)"
    by (simp add: hide_flags_def other_flag_def one_challenge_def empty_conn_def web_101_def)
  have d: "colls one_challenge ''ctfchallenge'' \<noteq> colls other_flag ''ctfchallenge''"
    by (simp add: other_flag_def one_challenge_def empty_conn_def web_101_def)
  have nf: "\<not> fails_next one_challenge"
    by (simp add: fails_next_def one_challenge_def empty_conn_def)
  have l: "fst (list_challenges (Some one_challenge)) =
     Inr [[(''challenge_id'', VStr ''web-101''), (''title'', VStr ''Login Bypass Basics''),
           (''points'', VInt 100), (''id'', VStr ''000000000000000000000007'')]]"
    by (simp add: list_challenges_ok [OF nf] clean_with_id hex24_7)
       (simp add: one_challenge_def empty_conn_def web_101_def clean_with_id hex24_7)
  note t = flag_never_in_responses [OF h, of _ one_challenge "\<lambda>name. None"]
  show ?thesis
    by (intro conjI)
       (rule h, rule d,
        rule t [THEN conjunct2, THEN conjunct2, THEN conjunct1],
        rule t [THEN conjunct2, THEN conjunct2, THEN conjunct2, THEN conjunct1],
        rule t [THEN conjunct2, THEN conjunct2, THEN conjunct2, THEN conjunct2, THEN conjunct1],
        rule l)
qed

subsection \<open>The recorded username\<close>

lemma strip_blank: "strip u = [] \<longleftrightarrow> list_all is_space u"
proof
  assume "strip u = []"
  then have all: "\<forall>x \<in> set (dropWhile is_space u). is_space x"
    by (simp add: strip_def dropWhile_eq_Nil_conv)
  have "dropWhile is_space u = []"
  proof (cases "dropWhile is_space u")
    case Nil
    then show ?thesis .
  next
    case (Cons y ys)
    then have "\<not> is_space y"
      using hd_dropWhile [of is_space u] by simp
    with all Cons show ?thesis by simp
  qed
  then show "list_all is_space u"
    by (simp add: dropWhile_eq_Nil_conv list_all_iff)
next
  assume "list_all is_space u"
  then have "dropWhile is_space u = []"
    by (simp add: dropWhile_eq_Nil_conv list_all_iff)
  then show "strip u = []"
    unfolding strip_def by (simp only: rev.simps dropWhile.simps)
qed


text \<open>
  A submission that is judged and written is recorded with the username
  \<^verbatim>\<open>anonymous\<close> when the given username is empty or all whitespace, and with the
  trimmed username otherwise; and it is under that name that its points, when the
  flag is correct, are added to the totals of the pipeline.
\<close>

lemma submit_flag_username:
  assumes "\<not> fails_next c"
    and "List.find (\<lambda>d. map_of d ''challenge_id'' = Some (VStr (challenge_id p)))
           (documents c ''ctfchallenge'') = Some ch"
    and "judge ch (flag p) = Inr (b, n)"
    and "\<not> fails_next (advance c)"
    and "name = (if list_all is_space (username p) then ''anonymous'' else strip (username p))"
  shows "\<exists>c' d. snd (submit_flag (Some c) p) = Some c' \<and>
           colls c' ''ctfsubmission'' = colls c ''ctfsubmission'' @ [(next_oid c, d)] \<and>
           map_of d ''username'' = Some (VStr name) \<and>
           (\<forall>u. user_total c' u = user_total c u + (if b \<and> u = VStr name then n else 0))"
proof -
  let ?d = "submission_doc p b n"
  let ?c' = "inserted (advance (advance c)) ''ctfsubmission'' ?d"
  have s: "snd (submit_flag (Some c) p) = Some ?c'"
    using assms(1-4) by (simp add: submit_flag_found record_submission_ok)
  have r: "recorded_username (username p) = name"
    using assms(5) by (simp add: recorded_username_def strip_blank)
  have a: "colls ?c' ''ctfsubmission'' = colls c ''ctfsubmission'' @ [(next_oid c, ?d)]"
    by simp
  have u: "map_of ?d ''username'' = Some (VStr name)"
    by (simp add: submission_doc_def r)
  have f: "map_of ?d ''correct'' = Some (VBool b)" "spec_user ?d = VStr name"
    "num_field ?d ''points_awarded'' = n"
    by (simp_all add: submission_doc_def r spec_user_def num_field_def)
  have t: "user_total ?c' u = user_total c u + (if b \<and> u = VStr name then n else 0)" for u
  proof -
    have "user_total ?c' u =
      user_total c u +
        (if map_of ?d ''correct'' = Some (VBool True) \<and> spec_user ?d = u
         then num_field ?d ''points_awarded'' else 0)"
      by (rule user_total_insert [OF a])
    then show ?thesis
      unfolding f by auto
  qed
  from s a u t show ?thesis by blast
qed

lemma submit_flag_username_example:
  "(\<exists>c' d. snd (submit_flag (Some one_challenge)
               \<lparr>challenge_id = ''web-101'', username = ''   '', flag = ''FLAG{BAS1C_SQLI}''\<rparr>)
             = Some c' \<and>
           colls c' ''ctfsubmission'' = [(8, d)] \<and>
           map_of d ''username'' = Some (VStr ''anonymous'') \<and>
           user_total c' (VStr ''anonymous'') = 100) \<and>
   (\<exists>c' d. snd (submit_flag (Some one_challenge)
               \<lparr>challenge_id = ''web-101'', username = '' bob '', flag = ''FLAG{BAS1C_SQLI}''\<rparr>)
             = Some c' \<and>
           colls c' ''ctfsubmission'' = [(8, d)] \<and>
           map_of d ''username'' = Some (VStr ''bob'') \<and>
           user_total c' (VStr ''bob'') = 100)"
proof -
  let ?p = "\<lparr>challenge_id = ''web-101'', username = ''   '', flag = ''FLAG{BAS1C_SQLI}''\<rparr>"
  let ?q = "\<lparr>challenge_id = ''web-101'', username = '' bob '', flag = ''FLAG{BAS1C_SQLI}''\<rparr>"
  let ?ch = "(''_id'', VOid 7) # web_101"
  have nf: "\<not> fails_next one_challenge"
    by (simp add: fails_next_def one_challenge_def empty_conn_def)
  have nf2: "\<not> fails_next (advance one_challenge)"
    by (simp add: fails_next_def one_challenge_def empty_conn_def)
  have dp: "List.find (\<lambda>d. map_of d ''challenge_id'' = Some (VStr (challenge_id ?p)))
           (documents one_challenge ''ctfchallenge'') = Some ?ch"
    by (simp add: documents_one_challenge web_101_def)
  have dq: "List.find (\<lambda>d. map_of d ''challenge_id'' = Some (VStr (challenge_id ?q)))
           (documents one_challenge ''ctfchallenge'') = Some ?ch"
    by (simp add: documents_one_challenge web_101_def)
  have s: "strip ''FLAG{BAS1C_SQLI}'' = ''FLAG{BAS1C_SQLI}''"
    by (simp add: strip_def is_space_def)
  have jp: "judge ?ch (flag ?p) = Inr (True, 100)"
    by (simp add: judge_def s web_101_def get_default_def bind_exn_def)
  have jq: "judge ?ch (flag ?q) = Inr (True, 100)"
    by (simp add: judge_def s web_101_def get_default_def bind_exn_def)
  have blank: "''anonymous'' = (if list_all is_space (username ?p) then ''anonymous'' else strip (username ?p))"
    by (simp add: is_space_def)
  have bob: "''bob'' = (if list_all is_space (username ?q) then ''anonymous'' else strip (username ?q))"
    by (simp add: is_space_def strip_def)
  have e: "colls one_challenge ''ctfsubmission'' = []" and o: "next_oid one_challenge = 8"
    by (simp_all add: one_challenge_def empty_conn_def)
  have z: "user_total one_challenge u = 0" for u
    by (simp add: user_total_def totals_def pipeline_def run_pipeline_def group_sum_def
        documents_def e)
  from submit_flag_username [OF nf dp jp nf2 blank]
  have 1: "\<exists>c' d. snd (submit_flag (Some one_challenge) ?p) = Some c' \<and>
           colls c' ''ctfsubmission'' = [(8, d)] \<and>
           map_of d ''username'' = Some (VStr ''anonymous'') \<and>
           user_total c' (VStr ''anonymous'') = 100"
    unfolding e o z by auto
  from submit_flag_username [OF nf dq jq nf2 bob]
  have 2: "\<exists>c' d. snd (submit_flag (Some one_challenge) ?q) = Some c' \<and>
           colls c' ''ctfsubmission'' = [(8, d)] \<and>
           map_of d ''username'' = Some (VStr ''bob'') \<and>
           user_total c' (VStr ''bob'') = 100"
    unfolding e o z by auto
  from 1 2 show ?thesis by (rule conjI)
qed

subsection \<open>A handle that refuses truth testing\<close>

text \<open>
  \<^verbatim>\<open>leaderboard\<close> tests \<^verbatim>\<open>if db\<close> where \<^verbatim>\<open>test_database\<close>, \<^verbatim>\<open>seed_challenges\<close>
  and \<^verbatim>\<open>submit_flag\<close> compare the handle with \<^verbatim>\<open>None\<close>. A handle that raises
  on truth testing raises inside the \<^verbatim>\<open>try\<close>, and the catch-all handler answers
  the empty list, whatever the store holds.
\<close>

lemma strip_web_101_flag: "strip ''FLAG{BAS1C_SQLI}'' = ''FLAG{BAS1C_SQLI}''"
  by (simp add: strip_def is_space_def)

lemma submit_web_101:
  assumes "colls c ''ctfchallenge'' = [(7, web_101)]" and "faults c = []"
    and "challenge_id p = ''web-101''" and "flag p = ''FLAG{BAS1C_SQLI}''"
  shows "submit_flag (Some c) p =
     (Inr [(''correct'', VBool True), (''points'', VInt 100)],
      Some (inserted (advance (advance c)) ''ctfsubmission'' (submission_doc p True 100)))"
proof -
  let ?ch = "(''_id'', VOid 7) # web_101"
  have nf: "\<not> fails_next c" and nf2: "\<not> fails_next (advance c)"
    using assms(2) by (simp_all add: fails_next_def)
  have d: "List.find (\<lambda>d. map_of d ''challenge_id'' = Some (VStr (challenge_id p)))
           (documents c ''ctfchallenge'') = Some ?ch"
    using assms(1,3) by (simp add: documents_def with_id_def web_101_def)
  have j: "judge ?ch (flag p) = Inr (True, 100)"
    using assms(4)
    by (simp add: judge_def strip_web_101_flag web_101_def get_default_def bind_exn_def)
  show ?thesis
    by (simp add: submit_flag_found [OF nf d j] record_submission_ok [OF nf2])
qed

lemma one_submission_board:
  assumes "handle_truth c = Inr True" and "faults c = []"
    and "colls c ''ctfsubmission'' = [(n, submission_doc p True 100)]"
  shows "fst (leaderboard (Some c)) =
     Inr [[(''user'', VStr (recorded_username (username p))), (''points'', VInt 100)]]"
proof -
  have nf: "\<not> fails_next c"
    using assms(2) by (simp add: fails_next_def)
  have "spec_leaderboard (documents c ''ctfsubmission'') =
      [[(''user'', VStr (recorded_username (username p))), (''points'', VInt 100)]]"
    using assms(3)
    by (simp add: documents_def with_id_def submission_doc_def spec_leaderboard_def spec_users_def
        spec_total_def spec_correct_def spec_user_def num_field_def)
  then show ?thesis
    by (simp add: leaderboard_ok [OF assms(1) nf])
qed

lemma one_challenge_facts:
  "colls one_challenge ''ctfchallenge'' = [(7, web_101)]" "faults one_challenge = []"
  "colls one_challenge ''ctfsubmission'' = []" "next_oid one_challenge = 8"
  "handle_truth one_challenge = Inr True"
  by (simp_all add: one_challenge_def empty_conn_def)

lemma refusing_facts:
  "colls refusing ''ctfchallenge'' = [(7, web_101)]" "faults refusing = []"
  "colls refusing ''ctfsubmission'' = []" "next_oid refusing = 8"
  "handle_truth refusing = Inl NotImplementedError"
  by (simp_all add: refusing_def one_challenge_facts)

text \<open>
  Claim C3: the leaderboard is to be the stored submissions with \<open>correct = true\<close>,
  grouped by username, summed, sorted non-increasing and cut to 20 rows. On a store
  of four submissions behind a handle that refuses truth testing, with no store
  operation failing, that is two rows (bob 300, alice 200), and \<^verbatim>\<open>leaderboard\<close>
  returns none.
\<close>

theorem leaderboard_truth_test_bug:
  "handle_truth board_refusing = Inl NotImplementedError \<and>
   faults board_refusing = [] \<and>
   spec_leaderboard (documents board_refusing ''ctfsubmission'') =
     [[(''user'', VStr ''bob''), (''points'', VInt 300)],
      [(''user'', VStr ''alice''), (''points'', VInt 200)]] \<and>
   fst (leaderboard (Some board_refusing)) = Inr []"
proof -
  have "spec_leaderboard (documents board_refusing ''ctfsubmission'') =
     [[(''user'', VStr ''bob''), (''points'', VInt 300)],
      [(''user'', VStr ''alice''), (''points'', VInt 200)]]"
    by (simp add: spec_leaderboard_def spec_users_def spec_total_def spec_correct_def spec_user_def
        documents_def with_id_def board_refusing_def board_conn_def empty_conn_def sub_def
        submission_doc_def recorded_username_def strip_def is_space_def num_field_def)
  moreover have "handle_truth board_refusing = Inl NotImplementedError" "faults board_refusing = []"
    by (simp_all add: board_refusing_def board_conn_def empty_conn_def)
  ultimately show ?thesis
    by (simp add: leaderboard_truth_raises)
qed

text \<open>
  Claim C7: one more correct submission of 100 points by alice is to raise her
  leaderboard total by exactly 100. Behind a handle that refuses truth testing,
  alice's correct submission for \<^verbatim>\<open>web-101\<close> is judged, answered with 100 points
  and written, and the leaderboard is empty before and after; behind a handle that
  tests true the same submission puts alice on the leaderboard with 100.
\<close>

theorem leaderboard_misses_new_submission:
  "fst (submit_flag (Some refusing) alice_submits) =
     Inr [(''correct'', VBool True), (''points'', VInt 100)] \<and>
   map_option (\<lambda>c. colls c ''ctfsubmission'') (snd (submit_flag (Some refusing) alice_submits)) =
     Some [(8, [(''challenge_id'', VStr ''web-101''), (''username'', VStr ''alice''),
                (''submitted_flag'', VStr ''FLAG{BAS1C_SQLI}''), (''correct'', VBool True),
                (''points_awarded'', VInt 100)])] \<and>
   fst (leaderboard (Some refusing)) = Inr [] \<and>
   fst (leaderboard (snd (submit_flag (Some refusing) alice_submits))) = Inr [] \<and>
   fst (leaderboard (Some one_challenge)) = Inr [] \<and>
   fst (leaderboard (snd (submit_flag (Some one_challenge) alice_submits))) =
     Inr [[(''user'', VStr ''alice''), (''points'', VInt 100)]]"
proof -
  have p: "challenge_id alice_submits = ''web-101''" "flag alice_submits = ''FLAG{BAS1C_SQLI}''"
    "recorded_username (username alice_submits) = ''alice''"
    by (simp_all add: alice_submits_def recorded_username_def strip_def is_space_def)
  note r = submit_web_101 [OF refusing_facts(1,2) p(1,2)]
  note g = submit_web_101 [OF one_challenge_facts(1,2) p(1,2)]
  have d: "submission_doc alice_submits True 100 =
      [(''challenge_id'', VStr ''web-101''), (''username'', VStr ''alice''),
       (''submitted_flag'', VStr ''FLAG{BAS1C_SQLI}''), (''correct'', VBool True),
       (''points_awarded'', VInt 100)]"
    by (simp add: submission_doc_def p)
  have 1: "fst (submit_flag (Some refusing) alice_submits) =
     Inr [(''correct'', VBool True), (''points'', VInt 100)]"
    by (simp add: r)
  have 2: "map_option (\<lambda>c. colls c ''ctfsubmission'') (snd (submit_flag (Some refusing) alice_submits)) =
     Some [(8, submission_doc alice_submits True 100)]"
    by (simp add: r refusing_facts)
  have 3: "fst (leaderboard (Some refusing)) = Inr []"
    by (simp add: leaderboard_truth_raises refusing_facts)
  have 4: "fst (leaderboard (snd (submit_flag (Some refusing) alice_submits))) = Inr []"
    by (simp add: r leaderboard_truth_raises refusing_facts)
  have 5: "fst (leaderboard (Some one_challenge)) = Inr []"
    using leaderboard_ok [of one_challenge]
    by (simp add: one_challenge_facts fails_next_def documents_def spec_leaderboard_def spec_users_def spec_correct_def)
  have 6: "fst (leaderboard (snd (submit_flag (Some one_challenge) alice_submits))) =
     Inr [[(''user'', VStr ''alice''), (''points'', VInt 100)]]"
    unfolding g snd_conv
    using one_submission_board [of "inserted (advance (advance one_challenge)) ''ctfsubmission''
          (submission_doc alice_submits True 100)" 8 alice_submits]
    by (simp add: one_challenge_facts p)
  from 1 2 3 4 5 6 show ?thesis
    unfolding d by (intro conjI)
qed


end
